theory Spec2Isabelle
  imports Complex_Main "HOL-Library.Sublist" "HOL-Library.Multiset"
begin

section \<open>Student records\<close>

text \<open>
  The agents read students as dictionaries built from database rows. A student carries
  its GWA (\<open>None\<close> is SQL NULL), a list of skill rows, a traits dictionary (empty when
  the student has no personality row) and a list of availability rows.

  Python floats are modelled by exact rationals: \<open>0.30\<close> is \<open>3/10\<close>, and the
  arithmetic is exact. The traits dictionary is an association list from column name to
  a numeric value.
\<close>

record skill =
  skill_name :: string
  proficiency_level :: string
  years_experience :: rat

record avail =
  day_of_week :: string
  time_slot :: string

record student =
  ident :: nat
  gwa :: "rat option"
  skills :: "skill list"
  traits :: "(string \<times> rat) list"
  availability :: "avail list"

text \<open>\<open>d.get(key, default)\<close> on a traits dictionary.\<close>

definition dict_get :: "(string \<times> rat) list \<Rightarrow> string \<Rightarrow> rat \<Rightarrow> rat" where
  "dict_get d k dflt = (case map_of d k of None \<Rightarrow> dflt | Some v \<Rightarrow> v)"

text \<open>
  \<open>round(x, 3)\<close>: the nearest multiple of \<open>1/1000\<close>, a tie going to the even
  neighbour.
\<close>

definition round_half_even :: "rat \<Rightarrow> int" where
  "round_half_even y =
     (let f = \<lfloor>y\<rfloor>; d = y - of_int f
      in if d < 1/2 then f
         else if 1/2 < d then f + 1
         else if even f then f else f + 1)"

definition round3 :: "rat \<Rightarrow> rat" where
  "round3 x = of_int (round_half_even (x * 1000)) / 1000"

section \<open>MatcherAgent: the compatibility model\<close>

definition calculate_skill_diversity :: "student \<Rightarrow> student \<Rightarrow> rat" where
  "calculate_skill_diversity student1 student2 =
     (let skills1 = set (map skill_name (skills student1));
          skills2 = set (map skill_name (skills student2))
      in if skills1 = {} \<or> skills2 = {} then 1/2
         else
           let total_skills = skills1 \<union> skills2;
               common_skills = skills1 \<inter> skills2;
               overlap_ratio =
                 (if total_skills \<noteq> {}
                  then of_nat (card common_skills) / of_nat (card total_skills) else 0);
               diversity_score = 1 - \<bar>overlap_ratio - 1/2\<bar> * 2
           in max 0 diversity_score)"

definition gwa_step :: "rat \<Rightarrow> rat \<Rightarrow> rat" where
  "gwa_step gwa1 gwa2 =
     (let norm_gwa1 = (5 - gwa1) / 4;
          norm_gwa2 = (5 - gwa2) / 4;
          gwa_diff = \<bar>norm_gwa1 - norm_gwa2\<bar>
      in if 2/10 \<le> gwa_diff \<and> gwa_diff \<le> 5/10 then 1
         else if gwa_diff < 2/10 then 7/10
         else 6/10)"

definition calculate_gwa_balance :: "student \<Rightarrow> student \<Rightarrow> rat" where
  "calculate_gwa_balance student1 student2 =
     (case (gwa student1, gwa student2) of
        (Some gwa1, Some gwa2) \<Rightarrow> gwa_step gwa1 gwa2
      | _ \<Rightarrow> 1/2)"

definition slot_key :: "avail \<Rightarrow> string" where
  "slot_key a = day_of_week a @ ''_'' @ time_slot a"

definition calculate_schedule_overlap :: "student \<Rightarrow> student \<Rightarrow> rat" where
  "calculate_schedule_overlap student1 student2 =
     (let avail1 = set (map slot_key (availability student1));
          avail2 = set (map slot_key (availability student2))
      in if avail1 = {} \<or> avail2 = {} then 1/2
         else
           let common_slots = avail1 \<inter> avail2;
               total_possible = card (avail1 \<union> avail2)
           in if 0 < total_possible
              then of_nat (card common_slots) / of_nat total_possible else 0)"

definition personality_score :: "(string \<times> rat) list \<Rightarrow> (string \<times> rat) list \<Rightarrow> rat" where
  "personality_score traits1 traits2 =
     (let consc_diff = \<bar>dict_get traits1 ''conscientiousness'' 3
                        - dict_get traits2 ''conscientiousness'' 3\<bar>;
          consc_score = 1 - consc_diff / 4;
          agree_avg = (dict_get traits1 ''agreeableness'' 3
                       + dict_get traits2 ''agreeableness'' 3) / 2;
          agree_score = agree_avg / 5;
          extra_diff = \<bar>dict_get traits1 ''extraversion'' 3
                        - dict_get traits2 ''extraversion'' 3\<bar>;
          extra_score = extra_diff / 4
      in consc_score * (4/10) + agree_score * (4/10) + extra_score * (2/10))"

definition calculate_personality_compatibility :: "student \<Rightarrow> student \<Rightarrow> rat" where
  "calculate_personality_compatibility student1 student2 =
     (let traits1 = traits student1; traits2 = traits student2
      in if traits1 = [] \<or> traits2 = [] then 1/2
         else personality_score traits1 traits2)"

definition calculate_compatibility :: "student \<Rightarrow> student \<Rightarrow> rat" where
  "calculate_compatibility student1 student2 =
     (let skill_score = calculate_skill_diversity student1 student2;
          gwa_score = calculate_gwa_balance student1 student2;
          schedule_score = calculate_schedule_overlap student1 student2;
          pers_score = calculate_personality_compatibility student1 student2;
          overall_score = skill_score * (30/100) + gwa_score * (20/100)
                          + schedule_score * (30/100) + pers_score * (20/100)
      in round3 overall_score)"

section \<open>MatcherAgentGA: the compatibility model\<close>

text \<open>
  The evolutionary agent has its own copy of the score, written as one function. Its
  GWA branch tests the two values for truth, and Python takes the number zero for false.
\<close>

definition truthy_gwa :: "rat option \<Rightarrow> bool" where
  "truthy_gwa g = (case g of None \<Rightarrow> False | Some v \<Rightarrow> v \<noteq> 0)"

definition ga_calculate_compatibility :: "student \<Rightarrow> student \<Rightarrow> rat" where
  "ga_calculate_compatibility student1 student2 =
     (let skills1 = set (map skill_name (skills student1));
          skills2 = set (map skill_name (skills student2));
          skill_score =
            (if skills1 \<noteq> {} \<and> skills2 \<noteq> {}
             then let total_skills = skills1 \<union> skills2;
                      common_skills = skills1 \<inter> skills2;
                      overlap_ratio = of_nat (card common_skills) / of_nat (card total_skills)
                  in 1 - \<bar>overlap_ratio - 1/2\<bar> * 2
             else 1/2);
          gwa_score =
            (if truthy_gwa (gwa student1) \<and> truthy_gwa (gwa student2)
             then gwa_step (the (gwa student1)) (the (gwa student2))
             else 1/2);
          avail1 = set (map slot_key (availability student1));
          avail2 = set (map slot_key (availability student2));
          schedule_score =
            (if avail1 \<noteq> {} \<and> avail2 \<noteq> {}
             then let common_slots = avail1 \<inter> avail2;
                      total_possible = card (avail1 \<union> avail2)
                  in if 0 < total_possible
                     then of_nat (card common_slots) / of_nat total_possible else 0
             else 1/2);
          traits1 = traits student1;
          traits2 = traits student2;
          pers_score =
            (if traits1 \<noteq> [] \<and> traits2 \<noteq> []
             then personality_score traits1 traits2
             else 1/2);
          overall_score = skill_score * (30/100) + gwa_score * (20/100)
                          + schedule_score * (30/100) + pers_score * (20/100)
      in round3 overall_score)"

text \<open>A student with a GWA and nothing else on record.\<close>

definition bare_student :: "nat \<Rightarrow> rat option \<Rightarrow> student" where
  "bare_student i g =
     \<lparr>ident = i, gwa = g, skills = [], traits = [], availability = []\<rparr>"

text \<open>
  The Big Five columns are scores on the scale from 1 to 5, which the normalisations
  by 4 and by 5 in the personality score rely on.
\<close>

definition on_scale :: "(string \<times> rat) list \<Rightarrow> bool" where
  "on_scale d = (\<forall>(k, v) \<in> set d. 1 \<le> v \<and> v \<le> 5)"

text \<open>Sample students used to evaluate the model.\<close>

definition student_ana :: student where
  "student_ana =
     \<lparr>ident = 1, gwa = Some (7/4),
      skills = [\<lparr>skill_name = ''Python'', proficiency_level = ''Expert'', years_experience = 3\<rparr>,
                \<lparr>skill_name = ''SQL'', proficiency_level = ''Beginner'', years_experience = 1\<rparr>],
      traits = [(''conscientiousness'', 4), (''agreeableness'', 5), (''extraversion'', 2)],
      availability = [\<lparr>day_of_week = ''Monday'', time_slot = ''8:00-10:00''\<rparr>]\<rparr>"

definition student_ben :: student where
  "student_ben =
     \<lparr>ident = 2, gwa = Some (5/2),
      skills = [\<lparr>skill_name = ''Python'', proficiency_level = ''Advanced'', years_experience = 2\<rparr>],
      traits = [(''conscientiousness'', 2), (''agreeableness'', 3), (''extraversion'', 5)],
      availability = [\<lparr>day_of_week = ''Monday'', time_slot = ''8:00-10:00''\<rparr>,
                      \<lparr>day_of_week = ''Friday'', time_slot = ''13:00-15:00''\<rparr>]\<rparr>"

definition student_off_scale :: "rat \<Rightarrow> student" where
  "student_off_scale c =
     \<lparr>ident = 3, gwa = None, skills = [],
      traits = [(''conscientiousness'', c)], availability = []\<rparr>"

section \<open>CoordinatorAgent: skill match\<close>

text \<open>
  A work item as \<open>allocate_tasks\<close> holds it after parsing: the required skills are a
  list of names. A group member carries its skill rows and the running workload.
\<close>

record task =
  task_id :: nat
  task_name :: string
  required_skills :: "string list"
  complexity_level :: string
  estimated_hours :: rat

record member =
  member_id :: nat
  first_name :: string
  last_name :: string
  member_skills :: "skill list"
  assigned_hours :: rat
  assigned_tasks :: "task list"

text \<open>
  \<open>{s['skill_name']: s for s in member['skills']}\<close>: a later row with the same
  name replaces an earlier one.
\<close>

definition skills_dict :: "skill list \<Rightarrow> string \<Rightarrow> skill option" where
  "skills_dict rows = map_of (rev (map (\<lambda>s. (skill_name s, s)) rows))"

definition proficiency_points :: "string \<Rightarrow> rat" where
  "proficiency_points proficiency =
     (if proficiency = ''Expert'' then 1
      else if proficiency = ''Advanced'' then 8/10
      else if proficiency = ''Intermediate'' then 6/10
      else if proficiency = ''Beginner'' then 3/10
      else 0)"

definition calculate_skill_match :: "member \<Rightarrow> task \<Rightarrow> rat" where
  "calculate_skill_match m t =
     (if required_skills t = [] then 1/2
      else
        let required = set (required_skills t);
            by_name = skills_dict (member_skills m)
        in if member_skills m = [] then 1/10
           else
             let match_score =
                   (\<Sum>skill \<in> required.
                      case by_name skill of
                        None \<Rightarrow> 0
                      | Some s \<Rightarrow> proficiency_points (proficiency_level s));
                 final_score =
                   (if required \<noteq> {} then match_score / of_nat (card required) else 0)
             in min final_score 1)"

text \<open>
  The tier weight of a member for a skill, read off the member's rows: the weight of the
  tier recorded for that skill name (its last row), and nothing when the member has no
  row of that name.
\<close>

definition tier_weight :: "member \<Rightarrow> string \<Rightarrow> rat" where
  "tier_weight m name =
     (case List.find (\<lambda>s. skill_name s = name) (rev (member_skills m)) of
        None \<Rightarrow> 0
      | Some s \<Rightarrow> proficiency_points (proficiency_level s))"

definition member_no_skills :: member where
  "member_no_skills =
     \<lparr>member_id = 1, first_name = ''Ana'', last_name = ''Cruz'', member_skills = [],
      assigned_hours = 0, assigned_tasks = []\<rparr>"

definition member_python :: member where
  "member_python =
     \<lparr>member_id = 2, first_name = ''Ben'', last_name = ''Reyes'',
      member_skills =
        [\<lparr>skill_name = ''Python'', proficiency_level = ''Expert'', years_experience = 3\<rparr>,
         \<lparr>skill_name = ''Flask'', proficiency_level = ''Beginner'', years_experience = 1\<rparr>],
      assigned_hours = 0, assigned_tasks = []\<rparr>"

definition task_backend :: task where
  "task_backend =
     \<lparr>task_id = 10, task_name = ''Backend API Development'',
      required_skills = [''Python'', ''Flask'', ''REST APIs''],
      complexity_level = ''High'', estimated_hours = 25\<rparr>"

definition task_docs :: task where
  "task_docs =
     \<lparr>task_id = 11, task_name = ''Documentation'',
      required_skills = [''Technical Writing'', ''Documentation''],
      complexity_level = ''Low'', estimated_hours = 10\<rparr>"

section \<open>MatcherAgentGA: decoding a genome\<close>

definition min_group_size :: nat where
  "min_group_size = 3"

definition max_group_size :: nat where
  "max_group_size = 5"

text \<open>
  The scan of \<open>decode_individual\<close>: position \<open>i\<close> joins the current group, which is
  emitted when the gene exceeds one half or the group has reached the maximal size, and
  only if it has the minimal size.
\<close>

fun decode_scan :: "rat list \<Rightarrow> nat \<Rightarrow> nat list list \<Rightarrow> nat list \<Rightarrow> nat list list \<times> nat list" where
  "decode_scan [] i groups current_group = (groups, current_group)"
| "decode_scan (gene # rest) i groups current_group =
     (let current_group = current_group @ [i]
      in if (1/2 < gene \<or> max_group_size \<le> length current_group)
            \<and> min_group_size \<le> length current_group
         then decode_scan rest (Suc i) (groups @ [current_group]) []
         else decode_scan rest (Suc i) groups current_group)"

text \<open>\<open>min(groups, key=len)\<close> returns the first group of minimal length; this is its index.\<close>

fun smallest_index :: "'a list list \<Rightarrow> nat" where
  "smallest_index [] = 0"
| "smallest_index [g] = 0"
| "smallest_index (g # gs) =
     (let k = smallest_index gs
      in if length g \<le> length (gs ! k) then 0 else Suc k)"

definition decode_individual :: "rat list \<Rightarrow> nat list list" where
  "decode_individual individual =
     (case decode_scan individual 0 [] [] of
        (groups, current_group) \<Rightarrow>
          if current_group \<noteq> []
          then if min_group_size \<le> length current_group
               then groups @ [current_group]
               else if groups \<noteq> []
                    then let k = smallest_index groups
                         in groups[k := groups ! k @ current_group]
                    else groups
          else groups)"

section \<open>CoordinatorAgent: allocation\<close>

datatype py_error = ValueError | ZeroDivisionError | IndexError

text \<open>
  A pending task row as the query returns it: the required skills are one
  comma-separated string, or NULL.
\<close>

record task_row =
  row_id :: nat
  row_task_name :: string
  row_required_skills :: "string option"
  row_complexity_level :: string
  row_estimated_hours :: rat

text \<open>\<open>s.split(',')\<close> and \<open>s.strip()\<close>, on ASCII text.\<close>

fun split_commas :: "string \<Rightarrow> string list" where
  "split_commas [] = [[]]"
| "split_commas (c # cs) =
     (if c = CHR '','' then [] # split_commas cs
      else case split_commas cs of
             [] \<Rightarrow> [[c]]
           | w # ws \<Rightarrow> (c # w) # ws)"

definition is_space :: "char \<Rightarrow> bool" where
  "is_space c =
     (c = CHR '' '' \<or> c = CHR 0x09 \<or> c = CHR 0x0A \<or> c = CHR 0x0B \<or> c = CHR 0x0C
      \<or> c = CHR 0x0D \<or> c = CHR 0x1C \<or> c = CHR 0x1D \<or> c = CHR 0x1E \<or> c = CHR 0x1F)"

definition strip :: "string \<Rightarrow> string" where
  "strip s = rev (dropWhile is_space (rev (dropWhile is_space s)))"

definition parse_required_skills :: "string option \<Rightarrow> string list" where
  "parse_required_skills raw =
     (case raw of
        None \<Rightarrow> []
      | Some s \<Rightarrow> if s = [] then [] else map strip (split_commas s))"

definition parse_task :: "task_row \<Rightarrow> task" where
  "parse_task r =
     \<lparr>task_id = row_id r, task_name = row_task_name r,
      required_skills = parse_required_skills (row_required_skills r),
      complexity_level = row_complexity_level r,
      estimated_hours = row_estimated_hours r\<rparr>"

text \<open>\<open>complexity_order.get(level, 0)\<close>.\<close>

definition complexity_order :: "string \<Rightarrow> int" where
  "complexity_order level =
     (if level = ''High'' then 3
      else if level = ''Medium'' then 2
      else if level = ''Low'' then 1
      else 0)"

text \<open>
  \<open>sorted(tasks, key=..., reverse=True)\<close>: Python's sort is stable, also when
  reversed, so this is the stable sort by descending key.
\<close>

definition tasks_sorted :: "task list \<Rightarrow> task list" where
  "tasks_sorted tasks =
     sort_key (\<lambda>t. - complexity_order (complexity_level t)) tasks"

record allocation =
  alloc_task :: string
  assignee :: string
  skill_match :: rat
  hours :: rat

text \<open>The statements the loop sends to the database, in the order sent.\<close>

datatype db_write = InsertAssignment nat nat | SetInProgress nat

text \<open>\<open>max(candidates, key=...)\<close> returns the first candidate of maximal score.\<close>

fun first_max_index :: "rat list \<Rightarrow> nat" where
  "first_max_index [] = 0"
| "first_max_index [x] = 0"
| "first_max_index (x # xs) =
     (let k = first_max_index xs in if xs ! k \<le> x then 0 else Suc k)"

definition candidate_score :: "member list \<Rightarrow> task \<Rightarrow> member \<Rightarrow> py_error + rat" where
  "candidate_score members t m =
     (let skill_match = calculate_skill_match m t;
          avg_workload = sum_list (map assigned_hours members) / of_nat (length members)
      in if avg_workload + 1/10 = 0 then Inl ZeroDivisionError
         else
           let workload_factor = 1 - assigned_hours m / (avg_workload + 1/10)
           in Inr (skill_match * (7/10) + workload_factor * (3/10)))"

fun candidate_scores :: "member list \<Rightarrow> task \<Rightarrow> member list \<Rightarrow> py_error + rat list" where
  "candidate_scores members t [] = Inr []"
| "candidate_scores members t (m # ms) =
     (case candidate_score members t m of
        Inl e \<Rightarrow> Inl e
      | Inr s \<Rightarrow>
          (case candidate_scores members t ms of
             Inl e \<Rightarrow> Inl e
           | Inr ss \<Rightarrow> Inr (s # ss)))"

text \<open>
  The allocation loop over the sorted tasks. It returns the statements sent to the
  database and the members as mutated, together with the allocations or the exception
  that ended the loop.
\<close>

fun allocate_loop ::
  "task list \<Rightarrow> member list \<Rightarrow> allocation list \<Rightarrow> db_write list
   \<Rightarrow> (py_error + allocation list) \<times> db_write list \<times> member list" where
  "allocate_loop [] members allocations sent = (Inr allocations, sent, members)"
| "allocate_loop (t # ts) members allocations sent =
     (case candidate_scores members t members of
        Inl e \<Rightarrow> (Inl e, sent, members)
      | Inr scores \<Rightarrow>
          if scores = [] then (Inl ValueError, sent, members)
          else
            let k = first_max_index scores;
                selected_member = members ! k;
                sent = sent @ [InsertAssignment (task_id t) (member_id selected_member),
                             SetInProgress (task_id t)];
                members = members[k := selected_member
                  \<lparr>assigned_hours := assigned_hours selected_member + estimated_hours t,
                   assigned_tasks := assigned_tasks selected_member @ [t]\<rparr>];
                allocations = allocations @
                  [\<lparr>alloc_task = task_name t,
                    assignee = first_name selected_member @ '' '' @ last_name selected_member,
                    skill_match = calculate_skill_match selected_member t,
                    hours = estimated_hours t\<rparr>]
            in allocate_loop ts members allocations sent)"

definition allocate_tasks ::
  "member list \<Rightarrow> task_row list
   \<Rightarrow> (py_error + allocation list) \<times> db_write list \<times> member list" where
  "allocate_tasks members rows =
     (if rows = [] then (Inr [], [], members)
      else
        let tasks = map parse_task rows;
            members = map (\<lambda>m. m\<lparr>assigned_hours := 0, assigned_tasks := []\<rparr>) members
        in allocate_loop (tasks_sorted tasks) members [] [])"

text \<open>The tasks for which an assignment was sent to the database, in order.\<close>

fun assigned_task_ids :: "db_write list \<Rightarrow> nat list" where
  "assigned_task_ids [] = []"
| "assigned_task_ids (InsertAssignment t s # ws) = t # assigned_task_ids ws"
| "assigned_task_ids (SetInProgress t # ws) = assigned_task_ids ws"

definition sample_rows :: "task_row list" where
  "sample_rows =
     [\<lparr>row_id = 1, row_task_name = ''Documentation'',
        row_required_skills = Some ''Technical Writing, Documentation'',
        row_complexity_level = ''Low'', row_estimated_hours = 10\<rparr>,
      \<lparr>row_id = 2, row_task_name = ''Database Design'',
        row_required_skills = Some ''MySQL, Database Design, SQL'',
        row_complexity_level = ''High'', row_estimated_hours = 20\<rparr>,
      \<lparr>row_id = 3, row_task_name = ''Frontend Interface'',
        row_required_skills = None,
        row_complexity_level = ''Medium'', row_estimated_hours = 18\<rparr>,
      \<lparr>row_id = 4, row_task_name = ''Backend API Development'',
        row_required_skills = Some ''Python,Flask, REST APIs'',
        row_complexity_level = ''High'', row_estimated_hours = 25\<rparr>]"

section \<open>MatcherAgent: greedy group formation\<close>

text \<open>
  \<open>create_compatibility_matrix\<close>: entry \<open>(i, j)\<close> and entry \<open>(j, i)\<close> both hold the
  score computed for the pair with the smaller index first; the diagonal stays 0.
\<close>

definition create_compatibility_matrix :: "student list \<Rightarrow> rat list list" where
  "create_compatibility_matrix students =
     (let n = length students
      in map (\<lambda>i. map (\<lambda>j. if i < j then calculate_compatibility (students ! i) (students ! j)
                            else if j < i then calculate_compatibility (students ! j) (students ! i)
                            else 0) [0..<n]) [0..<n])"

text \<open>
  A formed group. Its members are the students' positions in \<open>self.students\<close>, which
  stand for the student dictionaries the Python list holds.
\<close>

record formed_group =
  group_num :: nat
  group_members :: "nat list"
  compatibility_score :: rat

text \<open>
  The scan over the candidates: the first candidate whose average compatibility with
  the group exceeds every earlier one, starting from the score \<open>-1\<close>.
\<close>

fun best_candidate_scan ::
  "rat list list \<Rightarrow> nat list \<Rightarrow> nat list \<Rightarrow> nat option \<Rightarrow> rat \<Rightarrow> nat option" where
  "best_candidate_scan compat_matrix grp [] best_candidate best_score = best_candidate"
| "best_candidate_scan compat_matrix grp (candidate # rest) best_candidate best_score =
     (let avg_compat = sum_list (map (\<lambda>member. compat_matrix ! candidate ! member) grp)
                       / of_nat (length grp)
      in if best_score < avg_compat
         then best_candidate_scan compat_matrix grp rest (Some candidate) avg_compat
         else best_candidate_scan compat_matrix grp rest best_candidate best_score)"

text \<open>
  The inner \<open>while\<close> loop. When no candidate scores above \<open>-1\<close> the Python loop
  changes nothing and runs again, forever; the function is partial, and \<open>None\<close> stands
  for not returning.
\<close>

partial_function (option) add_most_compatible ::
  "rat list list \<Rightarrow> nat \<Rightarrow> nat list \<Rightarrow> nat list \<Rightarrow> (nat list \<times> nat list) option" where
  "add_most_compatible compat_matrix target_group_size grp ungrouped =
     (if length grp < target_group_size \<and> ungrouped \<noteq> []
      then case best_candidate_scan compat_matrix grp ungrouped None (- 1) of
             None \<Rightarrow> add_most_compatible compat_matrix target_group_size grp ungrouped
           | Some best_candidate \<Rightarrow>
               add_most_compatible compat_matrix target_group_size
                 (grp @ [best_candidate]) (remove1 best_candidate ungrouped)
      else Some (grp, ungrouped))"

declare add_most_compatible.simps [code]

text \<open>The scores of the pairs of a group, in the order of the two nested loops.\<close>

fun pair_scores :: "rat list list \<Rightarrow> nat list \<Rightarrow> rat list" where
  "pair_scores compat_matrix [] = []"
| "pair_scores compat_matrix (x # xs) =
     map (\<lambda>y. compat_matrix ! x ! y) xs @ pair_scores compat_matrix xs"

definition make_group :: "rat list list \<Rightarrow> nat \<Rightarrow> nat list \<Rightarrow> formed_group" where
  "make_group compat_matrix num grp =
     (let group_compat = sum_list (pair_scores compat_matrix grp);
          count = length (pair_scores compat_matrix grp);
          avg_compat = (if 0 < count then group_compat / of_nat count else 0)
      in \<lparr>group_num = num, group_members = grp, compatibility_score = round3 avg_compat\<rparr>)"

text \<open>
  The outer \<open>while\<close> loop. \<open>random.choice(ungrouped)\<close> is element
  \<open>rnd c mod len(ungrouped)\<close>, where \<open>rnd\<close> is the random source and \<open>c\<close> counts the
  draws made so far: any element can be drawn.
\<close>

partial_function (option) form_loop ::
  "rat list list \<Rightarrow> (nat \<Rightarrow> nat) \<Rightarrow> nat \<Rightarrow> nat list \<Rightarrow> formed_group list \<Rightarrow> nat \<Rightarrow> nat
   \<Rightarrow> (formed_group list \<times> nat list) option" where
  "form_loop compat_matrix rnd target_group_size ungrouped groups num c =
     (if min_group_size \<le> length ungrouped
      then if length ungrouped < target_group_size
           then form_loop compat_matrix rnd target_group_size []
                  (groups @ [make_group compat_matrix num ungrouped]) (Suc num) c
           else
             let first_student = ungrouped ! (rnd c mod length ungrouped)
             in case add_most_compatible compat_matrix target_group_size [first_student]
                       (remove1 first_student ungrouped) of
                  None \<Rightarrow> None
                | Some (grp, rest) \<Rightarrow>
                    form_loop compat_matrix rnd target_group_size rest
                      (groups @ [make_group compat_matrix num grp]) (Suc num) (Suc c)
      else Some (groups, ungrouped))"

declare form_loop.simps [code]

text \<open>
  \<open>form_groups_simple\<close>: \<open>None\<close> when the call does not return, otherwise the
  exception raised or the groups returned. Leftover students join the first grp with
  the fewest members; \<open>min\<close> of an empty list of groups raises \<open>ValueError\<close>.
\<close>

definition form_groups_simple ::
  "student list \<Rightarrow> (nat \<Rightarrow> nat) \<Rightarrow> nat \<Rightarrow> (py_error + formed_group list) option" where
  "form_groups_simple students rnd target_group_size =
     (let compat_matrix = create_compatibility_matrix students
      in case form_loop compat_matrix rnd target_group_size [0..<length students] [] 1 0 of
           None \<Rightarrow> None
         | Some (groups, ungrouped) \<Rightarrow>
             if ungrouped \<noteq> []
             then if groups = [] then Some (Inl ValueError)
                  else
                    let k = smallest_index (map group_members groups);
                        smallest_group = groups ! k
                    in Some (Inr (groups[k := smallest_group
                         \<lparr>group_members := group_members smallest_group @ ungrouped\<rparr>]))
             else Some (Inr groups))"

text \<open>
  \<open>run\<close>, with the students the database returned (the empty list also when the
  query failed) and whether the connection was made. Saving and printing the groups
  are taken not to raise. Every exception of the body is caught and gives \<open>False\<close>.
\<close>

definition run :: "bool \<Rightarrow> student list \<Rightarrow> (nat \<Rightarrow> nat) \<Rightarrow> nat \<Rightarrow> bool option" where
  "run db_connected students rnd target_group_size =
     (if \<not> db_connected \<or> students = [] then Some False
      else case form_groups_simple students rnd target_group_size of
             None \<Rightarrow> None
           | Some (Inl e) \<Rightarrow> Some False
           | Some (Inr groups) \<Rightarrow> if groups = [] then Some False else Some True)"

text \<open>Every score between two positions of a set exceeds \<open>-1\<close>.\<close>

definition scores_above :: "rat list list \<Rightarrow> nat set \<Rightarrow> bool" where
  "scores_above M S = (\<forall>a \<in> S. \<forall>b \<in> S. - 1 < M ! a ! b)"

definition seven_students :: "student list" where
  "seven_students =
     [student_ana, student_ben, bare_student 3 None, bare_student 4 (Some 2),
      bare_student 5 (Some 3), student_ben\<lparr>ident := 6\<rparr>, student_ana\<lparr>ident := 7\<rparr>]"

text \<open>Three students, the first with a conscientiousness value far off the scale.\<close>

definition stuck_students :: "student list" where
  "stuck_students = [student_off_scale 1000, student_off_scale 1, student_off_scale 1]"

section \<open>MatcherAgentGA: the evolutionary search\<close>

text \<open>
  The search is written with the DEAP library. Its operators (\<open>initRepeat\<close>,
  \<open>selTournament\<close>, \<open>cxTwoPoint\<close>, \<open>mutFlipBit\<close>, \<open>selBest\<close>) and Python's
  \<open>random\<close> module are modelled here as the library defines them. The random source
  is a stream \<open>u\<close> of numbers read through their fractional part, so every draw lies
  in \<open>[0, 1)\<close>, and a counter \<open>c\<close> of the draws made: \<open>random.random()\<close> is the next
  number, \<open>random.choice\<close> and \<open>random.randint\<close> scale it to the range, so that
  every outcome of a draw is the outcome for some stream.
\<close>

definition population_size :: nat where
  "population_size = 50"

definition generations :: nat where
  "generations = 100"

definition crossover_prob :: rat where
  "crossover_prob = 7/10"

definition mutation_prob :: rat where
  "mutation_prob = 2/10"

definition random_random :: "(nat \<Rightarrow> rat) \<Rightarrow> nat \<Rightarrow> rat" where
  "random_random u c = u c - of_int \<lfloor>u c\<rfloor>"

definition random_below :: "(nat \<Rightarrow> rat) \<Rightarrow> nat \<Rightarrow> nat \<Rightarrow> nat" where
  "random_below u c n = nat \<lfloor>random_random u c * of_nat n\<rfloor>"

definition random_choice :: "(nat \<Rightarrow> rat) \<Rightarrow> 'a list \<Rightarrow> nat \<Rightarrow> py_error + 'a \<times> nat" where
  "random_choice u seq c =
     (if seq = [] then Inl IndexError
      else Inr (seq ! random_below u c (length seq), Suc c))"

definition random_randint :: "(nat \<Rightarrow> rat) \<Rightarrow> int \<Rightarrow> int \<Rightarrow> nat \<Rightarrow> py_error + int \<times> nat" where
  "random_randint u a b c =
     (if b < a then Inl ValueError
      else Inr (a + int (random_below u c (nat (b - a + 1))), Suc c))"

text \<open>
  An individual: its genes and its fitness, \<open>None\<close> while the fitness is invalid.
  An invalid fitness compares below every valid one.
\<close>

record individual =
  genes :: "rat list"
  fitness :: "rat option"

fun fitness_le :: "rat option \<Rightarrow> rat option \<Rightarrow> bool" where
  "fitness_le None b = True"
| "fitness_le (Some x) None = False"
| "fitness_le (Some x) (Some y) = (x \<le> y)"

text \<open>\<open>create_compatibility_matrix\<close> of the evolutionary agent, with its own score.\<close>

definition ga_create_compatibility_matrix :: "student list \<Rightarrow> rat list list" where
  "ga_create_compatibility_matrix students =
     (let n = length students
      in map (\<lambda>i. map (\<lambda>j. if i < j then ga_calculate_compatibility (students ! i) (students ! j)
                            else if j < i then ga_calculate_compatibility (students ! j) (students ! i)
                            else 0) [0..<n]) [0..<n])"

text \<open>\<open>evaluate_grouping\<close>: the loop over the decoded groups, with its two accumulators.\<close>

fun evaluate_groups :: "rat list list \<Rightarrow> nat \<Rightarrow> nat list list \<Rightarrow> rat \<Rightarrow> rat \<Rightarrow> rat \<times> rat" where
  "evaluate_groups compat_matrix target_size [] total_fitness penalty = (total_fitness, penalty)"
| "evaluate_groups compat_matrix target_size (g # gs) total_fitness penalty =
     (let penalty = (if length g < min_group_size \<or> max_group_size < length g
                     then penalty + 100 else penalty);
          group_compat = sum_list (pair_scores compat_matrix g);
          count = length (pair_scores compat_matrix g);
          avg_compat = (if 0 < count then group_compat / of_nat count else 0);
          total_fitness = total_fitness + avg_compat;
          total_fitness = (if length g = target_size then total_fitness + 1/10
                           else total_fitness)
      in evaluate_groups compat_matrix target_size gs total_fitness penalty)"

definition evaluate_grouping :: "rat list list \<Rightarrow> nat \<Rightarrow> rat list \<Rightarrow> rat" where
  "evaluate_grouping compat_matrix target_size gs =
     (case evaluate_groups compat_matrix target_size (decode_individual gs) 0 0 of
        (total_fitness, penalty) \<Rightarrow> total_fitness - penalty)"

text \<open>\<open>toolbox.population(n)\<close>: each individual takes \<open>n\<close> draws for its genes.\<close>

fun init_individual :: "(nat \<Rightarrow> rat) \<Rightarrow> nat \<Rightarrow> nat \<Rightarrow> rat list" where
  "init_individual u 0 c = []"
| "init_individual u (Suc n) c = random_random u c # init_individual u n (Suc c)"

fun init_population :: "(nat \<Rightarrow> rat) \<Rightarrow> nat \<Rightarrow> nat \<Rightarrow> nat \<Rightarrow> individual list \<times> nat" where
  "init_population u n 0 c = ([], c)"
| "init_population u n (Suc k) c =
     (case init_population u n k (c + n) of
        (rest, c') \<Rightarrow> (\<lparr>genes = init_individual u n c, fitness = None\<rparr> # rest, c'))"

definition evaluate_all :: "rat list list \<Rightarrow> nat \<Rightarrow> individual list \<Rightarrow> individual list" where
  "evaluate_all compat_matrix target_size population =
     map (\<lambda>ind. ind\<lparr>fitness := Some (evaluate_grouping compat_matrix target_size (genes ind))\<rparr>)
       population"

definition evaluate_invalid :: "rat list list \<Rightarrow> nat \<Rightarrow> individual list \<Rightarrow> individual list" where
  "evaluate_invalid compat_matrix target_size population =
     map (\<lambda>ind. if fitness ind = None
                 then ind\<lparr>fitness := Some (evaluate_grouping compat_matrix target_size (genes ind))\<rparr>
                 else ind)
       population"

text \<open>
  \<open>max(aspirants, key=fitness)\<close> and the head of \<open>selBest\<close>: the first individual
  of maximal fitness.
\<close>

fun best_of :: "individual \<Rightarrow> individual list \<Rightarrow> individual" where
  "best_of x [] = x"
| "best_of x (y # ys) =
     (let m = best_of y ys in if fitness_le (fitness m) (fitness x) then x else m)"

fun sel_random :: "(nat \<Rightarrow> rat) \<Rightarrow> individual list \<Rightarrow> nat \<Rightarrow> nat \<Rightarrow> py_error + individual list \<times> nat" where
  "sel_random u individuals 0 c = Inr ([], c)"
| "sel_random u individuals (Suc k) c =
     (case random_choice u individuals c of
        Inl e \<Rightarrow> Inl e
      | Inr (x, c') \<Rightarrow>
          (case sel_random u individuals k c' of
             Inl e \<Rightarrow> Inl e
           | Inr (xs, c'') \<Rightarrow> Inr (x # xs, c'')))"

fun sel_tournament :: "(nat \<Rightarrow> rat) \<Rightarrow> individual list \<Rightarrow> nat \<Rightarrow> nat \<Rightarrow> py_error + individual list \<times> nat" where
  "sel_tournament u individuals 0 c = Inr ([], c)"
| "sel_tournament u individuals (Suc k) c =
     (case sel_random u individuals 3 c of
        Inl e \<Rightarrow> Inl e
      | Inr (aspirants, c') \<Rightarrow>
          (case sel_tournament u individuals k c' of
             Inl e \<Rightarrow> Inl e
           | Inr (chosen, c'') \<Rightarrow> Inr (best_of (hd aspirants) (tl aspirants) # chosen, c'')))"

text \<open>\<open>cxTwoPoint\<close>: the genes between two cut points change sides.\<close>

definition cx_two_point ::
  "(nat \<Rightarrow> rat) \<Rightarrow> rat list \<Rightarrow> rat list \<Rightarrow> nat \<Rightarrow> py_error + (rat list \<times> rat list) \<times> nat" where
  "cx_two_point u ind1 ind2 c =
     (let size = int (min (length ind1) (length ind2))
      in case random_randint u 1 size c of
           Inl e \<Rightarrow> Inl e
         | Inr (cxpoint1, c') \<Rightarrow>
             (case random_randint u 1 (size - 1) c' of
                Inl e \<Rightarrow> Inl e
              | Inr (cxpoint2, c'') \<Rightarrow>
                  let a = nat (if cxpoint1 \<le> cxpoint2 then cxpoint1 else cxpoint2);
                      b = nat (if cxpoint1 \<le> cxpoint2 then cxpoint2 + 1 else cxpoint1)
                  in Inr ((take a ind1 @ take (b - a) (drop a ind2) @ drop b ind1,
                           take a ind2 @ take (b - a) (drop a ind1) @ drop b ind2), c'')))"

fun mate_pairs :: "(nat \<Rightarrow> rat) \<Rightarrow> individual list \<Rightarrow> nat \<Rightarrow> py_error + individual list \<times> nat" where
  "mate_pairs u (child1 # child2 # rest) c =
     (if random_random u c < crossover_prob
      then case cx_two_point u (genes child1) (genes child2) (Suc c) of
             Inl e \<Rightarrow> Inl e
           | Inr ((g1, g2), c') \<Rightarrow>
               (case mate_pairs u rest c' of
                  Inl e \<Rightarrow> Inl e
                | Inr (rest', c'') \<Rightarrow>
                    Inr (\<lparr>genes = g1, fitness = None\<rparr> # \<lparr>genes = g2, fitness = None\<rparr> # rest', c''))
      else case mate_pairs u rest (Suc c) of
             Inl e \<Rightarrow> Inl e
           | Inr (rest', c'') \<Rightarrow> Inr (child1 # child2 # rest', c''))"
| "mate_pairs u rest c = Inr (rest, c)"

text \<open>\<open>mutFlipBit\<close> with \<open>indpb = 0.05\<close>: a gene hit becomes \<open>float(not gene)\<close>.\<close>

fun mut_flip_bit :: "(nat \<Rightarrow> rat) \<Rightarrow> rat list \<Rightarrow> nat \<Rightarrow> rat list \<times> nat" where
  "mut_flip_bit u [] c = ([], c)"
| "mut_flip_bit u (g # gs) c =
     (case mut_flip_bit u gs (Suc c) of
        (gs', c') \<Rightarrow>
          ((if random_random u c < 5/100 then (if g = 0 then 1 else 0) else g) # gs', c'))"

fun mutate_all :: "(nat \<Rightarrow> rat) \<Rightarrow> individual list \<Rightarrow> nat \<Rightarrow> individual list \<times> nat" where
  "mutate_all u [] c = ([], c)"
| "mutate_all u (mutant # rest) c =
     (if random_random u c < mutation_prob
      then case mut_flip_bit u (genes mutant) (Suc c) of
             (gs, c') \<Rightarrow>
               (case mutate_all u rest c' of
                  (rest', c'') \<Rightarrow> (\<lparr>genes = gs, fitness = None\<rparr> # rest', c''))
      else case mutate_all u rest (Suc c) of
             (rest', c'') \<Rightarrow> (mutant # rest', c''))"

text \<open>One generation, and the loop over the generations.\<close>

definition generation ::
  "rat list list \<Rightarrow> nat \<Rightarrow> (nat \<Rightarrow> rat) \<Rightarrow> individual list \<Rightarrow> nat \<Rightarrow> py_error + individual list \<times> nat" where
  "generation compat_matrix target_size u population c =
     (let population = evaluate_all compat_matrix target_size population
      in case sel_tournament u population (length population) c of
           Inl e \<Rightarrow> Inl e
         | Inr (offspring, c1) \<Rightarrow>
             (case mate_pairs u offspring c1 of
                Inl e \<Rightarrow> Inl e
              | Inr (offspring, c2) \<Rightarrow>
                  (case mutate_all u offspring c2 of
                     (offspring, c3) \<Rightarrow>
                       Inr (evaluate_invalid compat_matrix target_size offspring, c3))))"

fun evolve ::
  "rat list list \<Rightarrow> nat \<Rightarrow> (nat \<Rightarrow> rat) \<Rightarrow> nat \<Rightarrow> individual list \<Rightarrow> nat \<Rightarrow> py_error + individual list \<times> nat" where
  "evolve compat_matrix target_size u 0 population c = Inr (population, c)"
| "evolve compat_matrix target_size u (Suc gens) population c =
     (case generation compat_matrix target_size u population c of
        Inl e \<Rightarrow> Inl e
      | Inr (population, c') \<Rightarrow> evolve compat_matrix target_size u gens population c')"

text \<open>
  \<open>form_groups_ga\<close>, for \<open>n\<close> students. Besides the groups it returns, the record
  keeps what the run held: the initial and the final population and the individual
  that \<open>selBest\<close> picked.
\<close>

record ga_result =
  initial_population :: "individual list"
  final_population :: "individual list"
  best_individual :: individual
  best_fitness :: rat
  ga_groups :: "formed_group list"

fun number_groups :: "rat list list \<Rightarrow> nat \<Rightarrow> nat list list \<Rightarrow> formed_group list" where
  "number_groups compat_matrix idx [] = []"
| "number_groups compat_matrix idx (g # gs) =
     make_group compat_matrix idx g # number_groups compat_matrix (Suc idx) gs"

definition form_groups_ga ::
  "rat list list \<Rightarrow> nat \<Rightarrow> (nat \<Rightarrow> rat) \<Rightarrow> nat \<Rightarrow> py_error + ga_result" where
  "form_groups_ga compat_matrix n u target_group_size =
     (case init_population u n population_size 0 of
        (population, c) \<Rightarrow>
          (case evolve compat_matrix target_group_size u generations population c of
             Inl e \<Rightarrow> Inl e
           | Inr (final, c') \<Rightarrow>
               (case final of
                  [] \<Rightarrow> Inl IndexError
                | x # xs \<Rightarrow>
                    let best = best_of x xs
                    in case fitness best of
                         None \<Rightarrow> Inl IndexError
                       | Some f \<Rightarrow>
                           Inr \<lparr>initial_population = population,
                                final_population = final,
                                best_individual = best,
                                best_fitness = f,
                                ga_groups = number_groups compat_matrix 1
                                              (decode_individual (genes best))\<rparr>)))"

text \<open>
  A random stream whose first six numbers are 0.9 and whose other numbers are 0.4, and
  six students with nothing on record.
\<close>

definition stream_one_good :: "nat \<Rightarrow> rat" where
  "stream_one_good k = (if k < 6 then 9/10 else 4/10)"

definition six_students :: "student list" where
  "six_students = map (\<lambda>i. bare_student i None) [0..<6]"

definition good_genes :: "rat list" where
  "good_genes = [9/10, 9/10, 9/10, 9/10, 9/10, 9/10]"

definition bad_genes :: "rat list" where
  "bad_genes = [4/10, 4/10, 4/10, 4/10, 4/10, 4/10]"

definition flat_matrix :: "rat list list" where
  "flat_matrix =
     [[0, 1/2, 1/2, 1/2, 1/2, 1/2], [1/2, 0, 1/2, 1/2, 1/2, 1/2],
      [1/2, 1/2, 0, 1/2, 1/2, 1/2], [1/2, 1/2, 1/2, 0, 1/2, 1/2],
      [1/2, 1/2, 1/2, 1/2, 0, 1/2], [1/2, 1/2, 1/2, 1/2, 1/2, 0]]"

section \<open>Properties of the compatibility model\<close>

lemma round_half_even_bounds:
  "y - 1/2 \<le> of_int (round_half_even y) \<and> of_int (round_half_even y) \<le> y + 1/2"
  unfolding round_half_even_def Let_def by (auto; linarith)

lemma round3_unit:
  assumes "0 \<le> x" "x \<le> 1"
  shows "0 \<le> round3 x \<and> round3 x \<le> 1"
proof -
  let ?n = "round_half_even (x * 1000)"
  have b: "x * 1000 - 1/2 \<le> of_int ?n \<and> of_int ?n \<le> x * 1000 + 1/2"
    by (rule round_half_even_bounds)
  have "(- 1 :: rat) < of_int ?n" using b assms by linarith
  then have "(-1::int) < ?n" by linarith
  then have lo: "0 \<le> ?n" by linarith
  have "(of_int ?n :: rat) < 1001" using b assms by linarith
  then have "?n < 1001" by linarith
  then have hi: "?n \<le> 1000" by linarith
  have "(0::rat) \<le> of_int ?n" using lo by simp
  moreover have "(of_int ?n :: rat) \<le> 1000" using hi by linarith
  ultimately show ?thesis unfolding round3_def by simp
qed

lemma overlap_unit:
  fixes A B :: "'a set"
  assumes "finite A" "finite B"
  shows "0 \<le> (of_nat (card (A \<inter> B)) :: rat) / of_nat (card (A \<union> B))
       \<and> (of_nat (card (A \<inter> B)) :: rat) / of_nat (card (A \<union> B)) \<le> 1"
proof -
  have "card (A \<inter> B) \<le> card (A \<union> B)" using assms by (intro card_mono) auto
  then have "(of_nat (card (A \<inter> B)) :: rat) \<le> of_nat (card (A \<union> B))" by simp
  then show ?thesis by (auto simp: divide_le_eq_1)
qed

lemma diversity_unit:
  fixes r :: rat
  assumes "0 \<le> r" "r \<le> 1"
  shows "0 \<le> 1 - \<bar>r - 1/2\<bar> * 2 \<and> 1 - \<bar>r - 1/2\<bar> * 2 \<le> 1"
  using assms by (auto simp: abs_if)

lemma skill_diversity_sym: "calculate_skill_diversity a b = calculate_skill_diversity b a"
  unfolding calculate_skill_diversity_def Let_def by (auto simp: Un_commute Int_commute)

lemma skill_diversity_range:
  "0 \<le> calculate_skill_diversity a b \<and> calculate_skill_diversity a b \<le> 1"
proof -
  let ?A = "set (map skill_name (skills a))" and ?B = "set (map skill_name (skills b))"
  have u: "0 \<le> (of_nat (card (?A \<inter> ?B)) :: rat) / of_nat (card (?A \<union> ?B))
         \<and> (of_nat (card (?A \<inter> ?B)) :: rat) / of_nat (card (?A \<union> ?B)) \<le> 1"
    by (rule overlap_unit) simp_all
  note d = diversity_unit [OF conjunct1 [OF u] conjunct2 [OF u]]
  show ?thesis unfolding calculate_skill_diversity_def Let_def using d by auto
qed

lemma gwa_step_sym: "gwa_step x y = gwa_step y x"
  unfolding gwa_step_def Let_def by (simp add: abs_minus_commute)

lemma gwa_step_range: "1/2 \<le> gwa_step x y \<and> gwa_step x y \<le> 1"
  unfolding gwa_step_def Let_def by simp

lemma gwa_balance_sym: "calculate_gwa_balance a b = calculate_gwa_balance b a"
  unfolding calculate_gwa_balance_def by (auto split: option.splits simp: gwa_step_sym)

lemma gwa_balance_range:
  "1/2 \<le> calculate_gwa_balance a b \<and> calculate_gwa_balance a b \<le> 1"
  unfolding calculate_gwa_balance_def using gwa_step_range by (auto split: option.splits)

lemma schedule_sym: "calculate_schedule_overlap a b = calculate_schedule_overlap b a"
  unfolding calculate_schedule_overlap_def Let_def by (auto simp: Un_commute Int_commute)

lemma schedule_range:
  "0 \<le> calculate_schedule_overlap a b \<and> calculate_schedule_overlap a b \<le> 1"
proof -
  let ?A = "set (map slot_key (availability a))" and ?B = "set (map slot_key (availability b))"
  have u: "0 \<le> (of_nat (card (?A \<inter> ?B)) :: rat) / of_nat (card (?A \<union> ?B))
         \<and> (of_nat (card (?A \<inter> ?B)) :: rat) / of_nat (card (?A \<union> ?B)) \<le> 1"
    by (rule overlap_unit) simp_all
  show ?thesis unfolding calculate_schedule_overlap_def Let_def using u by auto
qed

lemma personality_score_sym: "personality_score t1 t2 = personality_score t2 t1"
  unfolding personality_score_def Let_def by (simp add: abs_minus_commute add.commute)

lemma personality_sym:
  "calculate_personality_compatibility a b = calculate_personality_compatibility b a"
  unfolding calculate_personality_compatibility_def Let_def
  by (auto simp: personality_score_sym)

lemma dict_get_scale: "on_scale d \<Longrightarrow> 1 \<le> dict_get d k 3 \<and> dict_get d k 3 \<le> 5"
  unfolding on_scale_def dict_get_def by (auto split: option.splits dest!: map_of_SomeD)

lemma pers_arith:
  fixes c1 c2 a1 a2 e1 e2 :: rat
  assumes "1 \<le> c1 \<and> c1 \<le> 5" "1 \<le> c2 \<and> c2 \<le> 5" "1 \<le> a1 \<and> a1 \<le> 5"
    "1 \<le> a2 \<and> a2 \<le> 5" "1 \<le> e1 \<and> e1 \<le> 5" "1 \<le> e2 \<and> e2 \<le> 5"
  shows "0 \<le> (1 - \<bar>c1 - c2\<bar> / 4) * (4/10) + (a1 + a2) / 2 / 5 * (4/10)
              + \<bar>e1 - e2\<bar> / 4 * (2/10)
       \<and> (1 - \<bar>c1 - c2\<bar> / 4) * (4/10) + (a1 + a2) / 2 / 5 * (4/10)
              + \<bar>e1 - e2\<bar> / 4 * (2/10) \<le> 1"
proof -
  have c: "0 \<le> \<bar>c1 - c2\<bar> \<and> \<bar>c1 - c2\<bar> \<le> 4" using assms(1,2) by (simp add: abs_le_iff)
  have e: "0 \<le> \<bar>e1 - e2\<bar> \<and> \<bar>e1 - e2\<bar> \<le> 4" using assms(5,6) by (simp add: abs_le_iff)
  define x where "x = \<bar>c1 - c2\<bar>"
  define y where "y = \<bar>e1 - e2\<bar>"
  have "0 \<le> (1 - x / 4) * (4/10) + (a1 + a2) / 2 / 5 * (4/10) + y / 4 * (2/10)
       \<and> (1 - x / 4) * (4/10) + (a1 + a2) / 2 / 5 * (4/10) + y / 4 * (2/10) \<le> 1"
    using c e assms(3,4) unfolding x_def [symmetric] y_def [symmetric]
    by (simp add: field_simps)
  then show ?thesis unfolding x_def y_def .
qed

lemma personality_score_range:
  assumes "on_scale t1" "on_scale t2"
  shows "0 \<le> personality_score t1 t2 \<and> personality_score t1 t2 \<le> 1"
  unfolding personality_score_def Let_def
  by (rule pers_arith) (simp_all only: dict_get_scale assms)

lemma personality_range:
  assumes "on_scale (traits a)" "on_scale (traits b)"
  shows "0 \<le> calculate_personality_compatibility a b
       \<and> calculate_personality_compatibility a b \<le> 1"
  unfolding calculate_personality_compatibility_def Let_def
  using personality_score_range [OF assms] by simp

lemma weighted_unit:
  fixes s g v p :: rat
  assumes "0 \<le> s \<and> s \<le> 1" "1/2 \<le> g \<and> g \<le> 1" "0 \<le> v \<and> v \<le> 1" "0 \<le> p \<and> p \<le> 1"
  shows "0 \<le> s * (30/100) + g * (20/100) + v * (30/100) + p * (20/100)
       \<and> s * (30/100) + g * (20/100) + v * (30/100) + p * (20/100) \<le> 1"
  using assms by simp

lemma compatibility_sym: "calculate_compatibility a b = calculate_compatibility b a"
  unfolding calculate_compatibility_def Let_def
  by (simp only: skill_diversity_sym [of a b] gwa_balance_sym [of a b]
      schedule_sym [of a b] personality_sym [of a b])

lemma compatibility_range:
  assumes "on_scale (traits a)" "on_scale (traits b)"
  shows "0 \<le> calculate_compatibility a b \<and> calculate_compatibility a b \<le> 1"
proof -
  have "0 \<le> calculate_skill_diversity a b * (30/100) + calculate_gwa_balance a b * (20/100)
             + calculate_schedule_overlap a b * (30/100)
             + calculate_personality_compatibility a b * (20/100)
      \<and> calculate_skill_diversity a b * (30/100) + calculate_gwa_balance a b * (20/100)
             + calculate_schedule_overlap a b * (30/100)
             + calculate_personality_compatibility a b * (20/100) \<le> 1"
    by (rule weighted_unit)
      (simp_all only: skill_diversity_range gwa_balance_range schedule_range
        personality_range [OF assms])
  then have "0 \<le> round3 (calculate_skill_diversity a b * (30/100)
             + calculate_gwa_balance a b * (20/100)
             + calculate_schedule_overlap a b * (30/100)
             + calculate_personality_compatibility a b * (20/100))
      \<and> round3 (calculate_skill_diversity a b * (30/100)
             + calculate_gwa_balance a b * (20/100)
             + calculate_schedule_overlap a b * (30/100)
             + calculate_personality_compatibility a b * (20/100)) \<le> 1"
    using round3_unit by blast
  then show ?thesis
    unfolding calculate_compatibility_def Let_def by simp
qed

lemmas compat_defs =
  calculate_compatibility_def calculate_skill_diversity_def calculate_gwa_balance_def
  gwa_step_def calculate_schedule_overlap_def calculate_personality_compatibility_def
  personality_score_def dict_get_def slot_key_def round3_def round_half_even_def

text \<open>
  C9. When one of two students has no skill name on record, the skill-diversity
  sub-score of the pair is exactly one half.
\<close>

theorem skill_diversity_neutral:
  "set (map skill_name (skills student1)) = {} \<or> set (map skill_name (skills student2)) = {}
   \<Longrightarrow> calculate_skill_diversity student1 student2 = 1/2"
  unfolding calculate_skill_diversity_def Let_def by auto

theorem skill_diversity_neutral_witness:
  "(set (map skill_name (skills (bare_student 7 None))) = {}
      \<or> set (map skill_name (skills student_ana)) = {})
   \<and> calculate_skill_diversity (bare_student 7 None) student_ana = 1/2"
  using skill_diversity_neutral [of "bare_student 7 None" student_ana]
  by (simp add: bare_student_def)

text \<open>
  C1, as stated, fails: with a conscientiousness value off the 1 to 5 scale the
  score of a pair leaves the unit interval.
\<close>

theorem compatibility_range_counterexample:
  "calculate_compatibility (student_off_scale 1) (student_off_scale 100) < 0"
  by (simp add: compat_defs student_off_scale_def Let_def)

text \<open>
  C1, amended. The compatibility score is symmetric for every two student records,
  whatever is empty or missing in them, and it lies between 0 and 1 whenever the trait
  values on record lie on the scale from 1 to 5.
\<close>

theorem compatibility_symmetric_unit:
  "calculate_compatibility a b = calculate_compatibility b a
   \<and> (on_scale (traits a) \<and> on_scale (traits b)
        \<longrightarrow> 0 \<le> calculate_compatibility a b \<and> calculate_compatibility a b \<le> 1)"
  using compatibility_sym [of a b] compatibility_range [of a b] by blast

theorem compatibility_symmetric_unit_witness:
  "calculate_compatibility student_ana student_ben
     = calculate_compatibility student_ben student_ana
   \<and> on_scale (traits student_ana) \<and> on_scale (traits student_ben)
   \<and> 0 \<le> calculate_compatibility student_ana student_ben
   \<and> calculate_compatibility student_ana student_ben \<le> 1"
proof -
  have sc: "on_scale (traits student_ana) \<and> on_scale (traits student_ben)"
    by (simp add: on_scale_def student_ana_def student_ben_def)
  show ?thesis
    using compatibility_symmetric_unit [of student_ana student_ben] sc by simp
qed

text \<open>
  C8. The two agents do not score every pair alike: for two students whose GWA is
  recorded as zero and who have nothing else on record, the greedy agent computes the
  GWA sub-score from the two values (0.7, the scores being equal) and returns 0.54,
  while the evolutionary agent takes the zero for a missing value and returns 0.5.
\<close>

theorem compatibility_agents_differ_at_zero_gwa:
  "calculate_compatibility (bare_student 0 (Some 0)) (bare_student 1 (Some 0)) = 27/50
   \<and> ga_calculate_compatibility (bare_student 0 (Some 0)) (bare_student 1 (Some 0)) = 1/2"
  by (simp add: compat_defs ga_calculate_compatibility_def truthy_gwa_def
      bare_student_def Let_def)

section \<open>Properties of the skill match\<close>

lemma map_of_key_find:
  "map_of (map (\<lambda>s. (f s, s)) xs) k = List.find (\<lambda>s. f s = k) xs"
  by (induction xs) auto

lemma skills_dict_find:
  "skills_dict rows name = List.find (\<lambda>s. skill_name s = name) (rev rows)"
  unfolding skills_dict_def by (simp only: rev_map map_of_key_find)

lemma skill_lookup_weight:
  "(case skills_dict (member_skills m) name of None \<Rightarrow> 0
    | Some s \<Rightarrow> proficiency_points (proficiency_level s)) = tier_weight m name"
  unfolding tier_weight_def by (simp add: skills_dict_find)

lemma tier_weight_absent:
  "name \<notin> skill_name ` set (member_skills m) \<Longrightarrow> tier_weight m name = 0"
proof -
  assume a: "name \<notin> skill_name ` set (member_skills m)"
  have "List.find (\<lambda>s. skill_name s = name) (rev (member_skills m)) = None"
    using a by (auto simp: find_None_iff)
  then show ?thesis unfolding tier_weight_def by simp
qed

lemma skill_match_formula:
  assumes "required_skills t \<noteq> []" "member_skills m \<noteq> []"
  shows "calculate_skill_match m t
         = min (sum (tier_weight m) (set (required_skills t))
                / of_nat (card (set (required_skills t)))) 1"
  using assms unfolding calculate_skill_match_def Let_def
  by (simp add: skill_lookup_weight)

text \<open>
  C3, amended. \<open>calculate_skill_match\<close> returns 0.5 when the item requires no skill.
  Otherwise it returns 0.1 when the member's skill list is empty, and for a member with
  at least one skill row it returns the sum, over the distinct required skills, of the
  member's tier weight (Expert 1.0, Advanced 0.8, Intermediate 0.6, Beginner 0.3, any other
  tier or an absent skill 0), divided by the number of distinct required skills and capped
  at 1.0; such a member possessing none of the required skills scores 0.
\<close>

theorem skill_match_cases:
  "(required_skills t = [] \<longrightarrow> calculate_skill_match m t = 1/2)
   \<and> (required_skills t \<noteq> [] \<and> member_skills m = [] \<longrightarrow> calculate_skill_match m t = 1/10)
   \<and> (required_skills t \<noteq> [] \<and> member_skills m \<noteq> [] \<longrightarrow>
        calculate_skill_match m t
        = min (sum (tier_weight m) (set (required_skills t))
               / of_nat (card (set (required_skills t)))) 1)
   \<and> (required_skills t \<noteq> [] \<and> member_skills m \<noteq> []
        \<and> set (required_skills t) \<inter> skill_name ` set (member_skills m) = {} \<longrightarrow>
        calculate_skill_match m t = 0)"
proof (intro conjI impI)
  show "required_skills t = [] \<Longrightarrow> calculate_skill_match m t = 1/2"
    unfolding calculate_skill_match_def by simp
next
  show "required_skills t \<noteq> [] \<and> member_skills m = [] \<Longrightarrow> calculate_skill_match m t = 1/10"
    unfolding calculate_skill_match_def Let_def by simp
next
  assume "required_skills t \<noteq> [] \<and> member_skills m \<noteq> []"
  then show "calculate_skill_match m t
        = min (sum (tier_weight m) (set (required_skills t))
               / of_nat (card (set (required_skills t)))) 1"
    by (simp add: skill_match_formula)
next
  assume a: "required_skills t \<noteq> [] \<and> member_skills m \<noteq> []
        \<and> set (required_skills t) \<inter> skill_name ` set (member_skills m) = {}"
  then have "\<forall>name \<in> set (required_skills t). tier_weight m name = 0"
    by (auto intro: tier_weight_absent)
  then have "sum (tier_weight m) (set (required_skills t)) = 0" by simp
  then show "calculate_skill_match m t = 0"
    using a by (simp add: skill_match_formula)
qed

text \<open>
  C3, as stated, fails for a member with an empty skill list: the sum of tier weights
  over the required skills is 0, yet the function returns 0.1.
\<close>

theorem skill_match_counterexample:
  "required_skills task_backend \<noteq> []
   \<and> min (sum (tier_weight member_no_skills) (set (required_skills task_backend))
          / of_nat (card (set (required_skills task_backend)))) 1 = 0
   \<and> calculate_skill_match member_no_skills task_backend = 1/10"
  by (simp add: calculate_skill_match_def tier_weight_def member_no_skills_def task_backend_def)

theorem skill_match_cases_witness:
  "required_skills (task_backend\<lparr>required_skills := []\<rparr>) = []
   \<and> calculate_skill_match member_python (task_backend\<lparr>required_skills := []\<rparr>) = 1/2
   \<and> required_skills task_backend \<noteq> [] \<and> member_skills member_no_skills = []
   \<and> calculate_skill_match member_no_skills task_backend = 1/10
   \<and> member_skills member_python \<noteq> []
   \<and> calculate_skill_match member_python task_backend = 13/30
   \<and> required_skills task_docs \<noteq> []
   \<and> set (required_skills task_docs) \<inter> skill_name ` set (member_skills member_python) = {}
   \<and> calculate_skill_match member_python task_docs = 0"
  using skill_match_cases [of "task_backend\<lparr>required_skills := []\<rparr>" member_python]
    skill_match_cases [of task_backend member_no_skills]
    skill_match_cases [of task_backend member_python]
    skill_match_cases [of task_docs member_python]
  by (simp add: member_python_def member_no_skills_def task_backend_def task_docs_def
      tier_weight_def proficiency_points_def)

section \<open>Properties of the genome decoder\<close>

lemma smallest_index_less: "gs \<noteq> [] \<Longrightarrow> smallest_index gs < length gs"
  by (induction gs rule: smallest_index.induct) (auto simp: Let_def)

lemma smallest_index_min:
  "j < length gs \<Longrightarrow> length (gs ! smallest_index gs) \<le> length (gs ! j)"
proof (induction gs arbitrary: j rule: smallest_index.induct)
  case 1
  then show ?case by simp
next
  case (2 g)
  then show ?case by simp
next
  case (3 g h gs)
  show ?case
  proof (cases j)
    case 0
    then show ?thesis by (auto simp: Let_def)
  next
    case (Suc j')
    then have "j' < length (h # gs)" using "3.prems" by simp
    from "3.IH" [OF this] Suc show ?thesis
      by (auto simp: Let_def)
  qed
qed

lemma smallest_index_first:
  "j < smallest_index gs \<Longrightarrow> length (gs ! smallest_index gs) < length (gs ! j)"
proof (induction gs arbitrary: j rule: smallest_index.induct)
  case 1
  then show ?case by simp
next
  case (2 g)
  then show ?case by simp
next
  case (3 g h gs)
  let ?k = "smallest_index (h # gs)"
  show ?case
  proof (cases "length g \<le> length ((h # gs) ! ?k)")
    case True
    then have "smallest_index (g # h # gs) = 0" by (simp add: Let_def)
    then show ?thesis using "3.prems" by simp
  next
    case False
    then have eq: "smallest_index (g # h # gs) = Suc ?k" by (simp add: Let_def)
    show ?thesis
    proof (cases j)
      case 0
      then show ?thesis using False eq by simp
    next
      case (Suc j')
      then have "j' < ?k" using "3.prems" eq by simp
      from "3.IH" [OF this] show ?thesis using eq Suc by simp
    qed
  qed
qed

lemma decode_scan_sizes:
  "decode_scan xs i groups cur = (gs', cur') \<Longrightarrow> \<forall>g \<in> set groups. min_group_size \<le> length g
   \<Longrightarrow> \<forall>g \<in> set gs'. min_group_size \<le> length g"
proof (induction xs arbitrary: i groups cur)
  case Nil
  then show ?case by simp
next
  case (Cons x xs)
  show ?case
  proof (cases "(1/2 < x \<or> max_group_size \<le> length (cur @ [i])) \<and> min_group_size \<le> length (cur @ [i])")
    case True
    then have "decode_scan xs (Suc i) (groups @ [cur @ [i]]) [] = (gs', cur')"
      using Cons.prems(1) by (auto simp: Let_def split: if_splits)
    moreover have "\<forall>g \<in> set (groups @ [cur @ [i]]). min_group_size \<le> length g"
      using Cons.prems(2) True by auto
    ultimately show ?thesis by (rule Cons.IH)
  next
    case False
    then have "decode_scan xs (Suc i) groups (cur @ [i]) = (gs', cur')"
      using Cons.prems(1) by (auto simp: Let_def split: if_splits)
    then show ?thesis using Cons.prems(2) by (rule Cons.IH)
  qed
qed

lemma decode_scan_count:
  "decode_scan xs i groups cur = (gs', cur')
   \<Longrightarrow> length (concat gs') + length cur' = length (concat groups) + length cur + length xs"
proof (induction xs arbitrary: i groups cur)
  case Nil
  then show ?case by simp
next
  case (Cons x xs)
  show ?case
  proof (cases "(1/2 < x \<or> max_group_size \<le> length (cur @ [i])) \<and> min_group_size \<le> length (cur @ [i])")
    case True
    then have "decode_scan xs (Suc i) (groups @ [cur @ [i]]) [] = (gs', cur')"
      using Cons.prems(1) by (auto simp: Let_def split: if_splits)
    from Cons.IH [OF this] show ?thesis by simp
  next
    case False
    then have "decode_scan xs (Suc i) groups (cur @ [i]) = (gs', cur')"
      using Cons.prems(1) by (auto simp: Let_def split: if_splits)
    from Cons.IH [OF this] show ?thesis by simp
  qed
qed

text \<open>
  C10. Every group in the list returned by \<open>decode_individual\<close> has at least
  \<open>min_group_size\<close>, that is 3, members, for every genome.
\<close>

theorem decode_groups_min_size:
  "g \<in> set (decode_individual individual) \<Longrightarrow> min_group_size \<le> length g \<and> 3 \<le> length g"
proof -
  assume g: "g \<in> set (decode_individual individual)"
  obtain groups cur where sc: "decode_scan individual 0 [] [] = (groups, cur)"
    by (cases "decode_scan individual 0 [] []") auto
  have inv: "\<forall>g \<in> set groups. min_group_size \<le> length g"
    using decode_scan_sizes [OF sc] by simp
  have "min_group_size \<le> length g"
  proof (cases "cur \<noteq> [] \<and> \<not> min_group_size \<le> length cur \<and> groups \<noteq> []")
    case True
    let ?k = "smallest_index groups"
    have k: "?k < length groups" using True by (simp add: smallest_index_less)
    have dec: "decode_individual individual = groups[?k := groups ! ?k @ cur]"
      using True sc by (simp add: decode_individual_def Let_def)
    from g dec have "g \<in> insert (groups ! ?k @ cur) (set groups)"
      using set_update_subset_insert by fastforce
    moreover have "min_group_size \<le> length (groups ! ?k)" using inv k by simp
    ultimately show ?thesis using inv by auto
  next
    case False
    then have "decode_individual individual = groups \<or>
        (min_group_size \<le> length cur \<and> decode_individual individual = groups @ [cur])"
      using sc by (auto simp: decode_individual_def Let_def)
    then show ?thesis using g inv by auto
  qed
  then show ?thesis by (simp add: min_group_size_def)
qed

theorem decode_groups_min_size_witness:
  "[0, 1, 2, 8, 9] \<in> set (decode_individual [1/10, 1/10, 9/10, 1/10, 1/10, 1/10, 1/10, 1/10, 1/10, 1/10])
   \<and> min_group_size \<le> length [0, 1, 2, 8, 9 :: nat] \<and> 3 \<le> length [0, 1, 2, 8, 9 :: nat]"
proof -
  have m: "[0, 1, 2, 8, 9] \<in> set (decode_individual [1/10, 1/10, 9/10, 1/10, 1/10, 1/10, 1/10, 1/10, 1/10, 1/10])"
    by (simp add: decode_individual_def min_group_size_def max_group_size_def Let_def)
  from decode_groups_min_size [OF m] m show ?thesis by simp
qed

text \<open>
  C4, amended. When the scan ends with a dangling current group smaller than
  \<open>min_group_size\<close>: if at least one group has been emitted, the dangling members are
  appended to the first emitted group of minimal size and so appear in the output;
  if no group has been emitted, which only happens for a genome of fewer than
  \<open>min_group_size\<close> genes, the decoder returns the empty list and the dangling members
  are in no group.
\<close>

theorem decode_dangling_group:
  assumes "decode_scan individual 0 [] [] = (groups, current_group)"
    and "current_group \<noteq> []" and "length current_group < min_group_size"
  shows "(groups \<noteq> [] \<longrightarrow>
           smallest_index groups < length groups
           \<and> (\<forall>j < length groups. length (groups ! smallest_index groups) \<le> length (groups ! j))
           \<and> (\<forall>j < smallest_index groups.
                 length (groups ! smallest_index groups) < length (groups ! j))
           \<and> decode_individual individual
               = groups[smallest_index groups := groups ! smallest_index groups @ current_group]
           \<and> set current_group \<subseteq> set (decode_individual individual ! smallest_index groups))
       \<and> (groups = [] \<longrightarrow>
             decode_individual individual = [] \<and> length individual < min_group_size)"
proof (intro conjI impI allI)
  assume ne: "groups \<noteq> []"
  show k: "smallest_index groups < length groups" using ne by (rule smallest_index_less)
  show dec: "decode_individual individual
               = groups[smallest_index groups := groups ! smallest_index groups @ current_group]"
    using assms ne by (simp add: decode_individual_def Let_def)
  show "set current_group \<subseteq> set (decode_individual individual ! smallest_index groups)"
    using dec k by simp
  show "\<And>j. j < length groups \<Longrightarrow> length (groups ! smallest_index groups) \<le> length (groups ! j)"
    by (rule smallest_index_min)
  show "\<And>j. j < smallest_index groups \<Longrightarrow>
      length (groups ! smallest_index groups) < length (groups ! j)"
    by (rule smallest_index_first)
next
  assume e: "groups = []"
  show "decode_individual individual = []"
    using assms e by (simp add: decode_individual_def Let_def)
  from decode_scan_count [OF assms(1)] e assms(3)
  show "length individual < min_group_size" by simp
qed

theorem decode_dangling_group_witness:
  "decode_scan [1/10, 1/10, 9/10, 1/10] 0 [] [] = ([[0, 1, 2]], [3])
   \<and> [3 :: nat] \<noteq> [] \<and> length [3 :: nat] < min_group_size \<and> [[0, 1, 2 :: nat]] \<noteq> []
   \<and> decode_individual [1/10, 1/10, 9/10, 1/10] = [[0, 1, 2, 3]]
   \<and> decode_scan [2/10, 3/10] 0 [] [] = ([], [0, 1])
   \<and> [0, 1 :: nat] \<noteq> [] \<and> length [0, 1 :: nat] < min_group_size
   \<and> decode_individual [2/10, 3/10] = []
   \<and> length [2/10, 3/10 :: rat] < min_group_size"
proof -
  have s1: "decode_scan [1/10, 1/10, 9/10, 1/10] 0 [] [] = ([[0, 1, 2]], [3])"
    by (simp add: min_group_size_def max_group_size_def Let_def)
  have s2: "decode_scan [2/10, 3/10] 0 [] [] = ([], [0, 1])"
    by (simp add: min_group_size_def max_group_size_def Let_def)
  have a: "[3 :: nat] \<noteq> []" "length [3 :: nat] < min_group_size"
    "[0, 1 :: nat] \<noteq> []" "length [0, 1 :: nat] < min_group_size"
    by (simp_all add: min_group_size_def)
  from decode_dangling_group [OF s1 a(1) a(2)] decode_dangling_group [OF s2 a(3) a(4)]
    s1 s2 a
  show ?thesis by simp
qed

text \<open>
  C4, as stated, fails: for a genome of two genes the scan ends with the dangling group
  of both positions and no emitted group, and the decoder returns no group at all.
\<close>

theorem decode_dangling_dropped:
  "decode_scan [1/10, 1/10] 0 [] [] = ([], [0, 1]) \<and> decode_individual [1/10, 1/10] = []"
  by (simp add: decode_individual_def min_group_size_def max_group_size_def Let_def)

section \<open>Properties of the allocation order\<close>

lemma tasks_sorted_descending:
  "sorted_wrt (\<lambda>a b. complexity_order (complexity_level b) \<le> complexity_order (complexity_level a))
     (tasks_sorted tasks)"
proof -
  have "sorted (map (\<lambda>t. - complexity_order (complexity_level t)) (tasks_sorted tasks))"
    unfolding tasks_sorted_def by (rule sorted_sort_key)
  then show ?thesis by (simp add: sorted_map)
qed

lemma tasks_sorted_stable:
  "filter (\<lambda>t. complexity_order (complexity_level t) = k) (tasks_sorted tasks)
   = filter (\<lambda>t. complexity_order (complexity_level t) = k) tasks"
proof -
  have e: "(\<lambda>t. complexity_order (complexity_level t) = k)
         = (\<lambda>t. - complexity_order (complexity_level t) = - k)" by auto
  show ?thesis unfolding tasks_sorted_def e by (rule sort_key_stable)
qed

lemma assigned_task_ids_append:
  "assigned_task_ids (a @ b) = assigned_task_ids a @ assigned_task_ids b"
  by (induction a rule: assigned_task_ids.induct) auto

lemma allocate_loop_trace:
  "allocate_loop ts members allocations sent = (outcome, sent', members')
   \<Longrightarrow> \<exists>n \<le> length ts.
         assigned_task_ids sent' = assigned_task_ids sent @ map task_id (take n ts)
         \<and> (\<forall>as. outcome = Inr as \<longrightarrow>
               n = length ts \<and> map alloc_task as = map alloc_task allocations @ map task_name ts)"
proof (induction ts arbitrary: members allocations sent)
  case Nil
  then show ?case by auto
next
  case (Cons t ts)
  show ?case
  proof (cases "candidate_scores members t members")
    case (Inl e)
    then have "outcome = Inl e" "sent' = sent" using Cons.prems by auto
    then have "assigned_task_ids sent' = assigned_task_ids sent @ map task_id (take 0 (t # ts))
         \<and> (\<forall>as. outcome = Inr as \<longrightarrow>
               0 = length (t # ts) \<and> map alloc_task as = map alloc_task allocations @ map task_name (t # ts))"
      by simp
    then show ?thesis by blast
  next
    case (Inr scores)
    show ?thesis
    proof (cases "scores = []")
      case True
      then have "outcome = Inl ValueError" "sent' = sent" using Cons.prems Inr by auto
      then have "assigned_task_ids sent' = assigned_task_ids sent @ map task_id (take 0 (t # ts))
         \<and> (\<forall>as. outcome = Inr as \<longrightarrow>
               0 = length (t # ts) \<and> map alloc_task as = map alloc_task allocations @ map task_name (t # ts))"
        by simp
      then show ?thesis by blast
    next
      case False
      define k where "k = first_max_index scores"
      define sel where "sel = members ! k"
      define sent1 where "sent1 = sent @ [InsertAssignment (task_id t) (member_id sel), SetInProgress (task_id t)]"
      define members1 where "members1 = members[k := sel
                  \<lparr>assigned_hours := assigned_hours sel + estimated_hours t,
                   assigned_tasks := assigned_tasks sel @ [t]\<rparr>]"
      define allocs1 where "allocs1 = allocations @
                  [\<lparr>alloc_task = task_name t,
                    assignee = first_name sel @ '' '' @ last_name sel,
                    skill_match = calculate_skill_match sel t,
                    hours = estimated_hours t\<rparr>]"
      have "allocate_loop ts members1 allocs1 sent1 = (outcome, sent', members')"
        using Cons.prems Inr False
        by (simp add: Let_def k_def sel_def sent1_def members1_def allocs1_def)
      from Cons.IH [OF this] obtain n where n: "n \<le> length ts"
        "assigned_task_ids sent' = assigned_task_ids sent1 @ map task_id (take n ts)"
        "\<forall>as. outcome = Inr as \<longrightarrow>
               n = length ts \<and> map alloc_task as = map alloc_task allocs1 @ map task_name ts"
        by blast
      have "Suc n \<le> length (t # ts)" using n(1) by simp
      moreover have "assigned_task_ids sent' = assigned_task_ids sent @ map task_id (take (Suc n) (t # ts))"
        using n(2) by (simp add: sent1_def assigned_task_ids_append)
      moreover have "\<forall>as. outcome = Inr as \<longrightarrow>
               Suc n = length (t # ts) \<and> map alloc_task as = map alloc_task allocations @ map task_name (t # ts)"
        using n(3) by (simp add: allocs1_def)
      ultimately show ?thesis by blast
    qed
  qed
qed

lemma candidate_scores_ok:
  "sum_list (map assigned_hours members) / of_nat (length members) + 1/10 \<noteq> 0
   \<Longrightarrow> \<exists>scores. candidate_scores members t ms = Inr scores \<and> length scores = length ms"
  by (induction ms) (auto simp: candidate_score_def Let_def)

lemma first_max_index_less: "xs \<noteq> [] \<Longrightarrow> first_max_index xs < length xs"
  by (induction xs rule: first_max_index.induct) (auto simp: Let_def)

lemma avg_nonneg:
  assumes "\<forall>m \<in> set members. 0 \<le> assigned_hours m"
  shows "sum_list (map assigned_hours members) / of_nat (length members) + 1/10 \<noteq> (0::rat)"
proof -
  have "0 \<le> sum_list (map assigned_hours members)"
    using assms by (intro sum_list_nonneg) auto
  then have "0 \<le> sum_list (map assigned_hours members) / of_nat (length members)"
    by simp
  then show ?thesis by linarith
qed

lemma allocate_loop_returns:
  "members \<noteq> [] \<Longrightarrow> \<forall>m \<in> set members. 0 \<le> assigned_hours m
   \<Longrightarrow> \<forall>t \<in> set ts. 0 \<le> estimated_hours t
   \<Longrightarrow> \<exists>as. fst (allocate_loop ts members allocations sent) = Inr as"
proof (induction ts arbitrary: members allocations sent)
  case Nil
  then show ?case by simp
next
  case (Cons t ts)
  from candidate_scores_ok [OF avg_nonneg [OF Cons.prems(2)], of t members]
  obtain scores where sc: "candidate_scores members t members = Inr scores"
    "length scores = length members" by blast
  have ne: "scores \<noteq> []" using sc(2) Cons.prems(1) by auto
  define k where "k = first_max_index scores"
  have k: "k < length members" using first_max_index_less [OF ne] sc(2) by (simp add: k_def)
  define sel where "sel = members ! k"
  define members1 where "members1 = members[k := sel
                  \<lparr>assigned_hours := assigned_hours sel + estimated_hours t,
                   assigned_tasks := assigned_tasks sel @ [t]\<rparr>]"
  have m1: "members1 \<noteq> []" using Cons.prems(1) by (simp add: members1_def)
  have "0 \<le> assigned_hours sel" using Cons.prems(2) k by (simp add: sel_def)
  then have "0 \<le> assigned_hours sel + estimated_hours t" using Cons.prems(3) by simp
  then have nn: "\<forall>m \<in> set members1. 0 \<le> assigned_hours m"
    using Cons.prems(2) unfolding members1_def
    by (auto dest!: subsetD [OF set_update_subset_insert])
  have ts: "\<forall>t \<in> set ts. 0 \<le> estimated_hours t" using Cons.prems(3) by simp
  from Cons.IH [OF m1 nn ts]
  show ?case using sc(1) ne
    by (simp add: Let_def k_def sel_def members1_def)
qed

text \<open>
  C6. \<open>allocate_tasks\<close> processes the pending work items in the order of the stable
  sort by descending complexity tier: the processing order is descending in the tier
  (every High item before any Medium item, every Medium before any Low), items of one
  tier keep their input order, the assignments sent to the database follow that order,
  and when the call returns every item has been assigned in that order. The call
  returns whenever the group has a member and no item has negative hours.
\<close>

theorem allocate_tasks_complexity_order:
  assumes "allocate_tasks members rows = (outcome, sent, members')"
  shows "sorted_wrt (\<lambda>a b. complexity_order (complexity_level b)
                            \<le> complexity_order (complexity_level a))
           (tasks_sorted (map parse_task rows))
       \<and> (\<forall>k. filter (\<lambda>t. complexity_order (complexity_level t) = k)
                  (tasks_sorted (map parse_task rows))
               = filter (\<lambda>t. complexity_order (complexity_level t) = k) (map parse_task rows))
       \<and> prefix (assigned_task_ids sent) (map task_id (tasks_sorted (map parse_task rows)))
       \<and> (\<forall>as. outcome = Inr as \<longrightarrow>
             assigned_task_ids sent = map task_id (tasks_sorted (map parse_task rows))
             \<and> map alloc_task as = map task_name (tasks_sorted (map parse_task rows)))
       \<and> (members \<noteq> [] \<and> (\<forall>r \<in> set rows. 0 \<le> row_estimated_hours r)
             \<longrightarrow> (\<exists>as. outcome = Inr as))"
proof (cases "rows = []")
  case True
  then have "outcome = Inr []" "sent = []" using assms by (auto simp: allocate_tasks_def)
  then show ?thesis using True by (simp add: tasks_sorted_def)
next
  case False
  let ?ts = "tasks_sorted (map parse_task rows)"
  let ?ms = "map (\<lambda>m. m\<lparr>assigned_hours := 0, assigned_tasks := []\<rparr>) members"
  have run: "allocate_loop ?ts ?ms [] [] = (outcome, sent, members')"
    using assms False by (simp add: allocate_tasks_def Let_def)
  from allocate_loop_trace [OF run] obtain n where n: "n \<le> length ?ts"
    "assigned_task_ids sent = map task_id (take n ?ts)"
    "\<forall>as. outcome = Inr as \<longrightarrow> n = length ?ts \<and> map alloc_task as = map task_name ?ts"
    by auto
  have p: "prefix (assigned_task_ids sent) (map task_id ?ts)"
    unfolding n(2) take_map [symmetric] by (rule take_is_prefix)
  have full: "\<forall>as. outcome = Inr as \<longrightarrow>
             assigned_task_ids sent = map task_id ?ts \<and> map alloc_task as = map task_name ?ts"
    using n(2,3) by auto
  have ret: "members \<noteq> [] \<and> (\<forall>r \<in> set rows. 0 \<le> row_estimated_hours r)
             \<longrightarrow> (\<exists>as. outcome = Inr as)"
  proof
    assume a: "members \<noteq> [] \<and> (\<forall>r \<in> set rows. 0 \<le> row_estimated_hours r)"
    have 1: "?ms \<noteq> []" using a by simp
    have 2: "\<forall>m \<in> set ?ms. 0 \<le> assigned_hours m" by simp
    have 3: "\<forall>t \<in> set ?ts. 0 \<le> estimated_hours t"
      using a by (auto simp: tasks_sorted_def parse_task_def)
    from allocate_loop_returns [OF 1 2 3, of "[]" "[]"] run
    show "\<exists>as. outcome = Inr as" by simp
  qed
  show ?thesis
    using tasks_sorted_descending [of "map parse_task rows"] tasks_sorted_stable p full ret
    by blast
qed

theorem allocate_tasks_complexity_order_witness:
  "[member_no_skills, member_python] \<noteq> []
   \<and> list_all (\<lambda>r. 0 \<le> row_estimated_hours r) sample_rows
   \<and> (\<exists>as. fst (allocate_tasks [member_no_skills, member_python] sample_rows) = Inr as)
   \<and> assigned_task_ids (fst (snd (allocate_tasks [member_no_skills, member_python] sample_rows)))
       = [2, 4, 3, 1]
   \<and> map (\<lambda>r. (row_id r, row_complexity_level r)) sample_rows
       = [(1, ''Low''), (2, ''High''), (3, ''Medium''), (4, ''High'')]"
proof -
  let ?r = "allocate_tasks [member_no_skills, member_python] sample_rows"
  have e: "?r = (fst ?r, fst (snd ?r), snd (snd ?r))" by simp
  have h: "[member_no_skills, member_python] \<noteq> []
      \<and> (\<forall>r \<in> set sample_rows. 0 \<le> row_estimated_hours r)"
    by (simp add: sample_rows_def)
  have h': "list_all (\<lambda>r. 0 \<le> row_estimated_hours r) sample_rows"
    by (simp add: sample_rows_def)
  have s: "map task_id (tasks_sorted (map parse_task sample_rows)) = [2, 4, 3, 1]"
    by (simp add: tasks_sorted_def sample_rows_def parse_task_def complexity_order_def)
  have m: "map (\<lambda>r. (row_id r, row_complexity_level r)) sample_rows
       = [(1, ''Low''), (2, ''High''), (3, ''Medium''), (4, ''High'')]"
    by (simp add: sample_rows_def)
  from allocate_tasks_complexity_order [OF e] h h' s m show ?thesis by metis
qed

section \<open>Properties of the greedy group formation\<close>

lemma best_candidate_scan_mem:
  "best_candidate_scan M g us b s = Some c \<Longrightarrow> c \<in> set us \<or> b = Some c"
  by (induction us arbitrary: b s) (auto simp: Let_def split: if_splits)

lemma mset_move:
  "c \<in> set u \<Longrightarrow> mset (g @ [c]) + mset (remove1 c u) = mset g + mset u"
  by (induction u) auto

lemma add_most_compatible_partial:
  assumes "add_most_compatible M target g u = Some r"
  shows "mset (fst r) + mset (snd r) = mset g + mset u
       \<and> \<not> (length (fst r) < target \<and> snd r \<noteq> [])
       \<and> length (snd r) \<le> length u"
proof -
  let ?Q = "\<lambda>(M :: rat list list) target g u r.
       mset (fst r) + mset (snd r) = mset g + mset u
       \<and> \<not> (length (fst r) < target \<and> snd r \<noteq> [])
       \<and> length (snd r) \<le> length u"
  have step: "?Q M target g u r"
    if IH: "\<And>M target g u r. f M target g u = Some r \<Longrightarrow> ?Q M target g u r"
    and body: "(if length g < target \<and> u \<noteq> []
        then case best_candidate_scan M g u None (- 1) of
               None \<Rightarrow> f M target g u
             | Some best_candidate \<Rightarrow>
                 f M target (g @ [best_candidate]) (remove1 best_candidate u)
        else Some (g, u)) = Some r"
    for f M target g u r
  proof (cases "length g < target \<and> u \<noteq> []")
    case False
    then have "r = (g, u)" using body by auto
    then show ?thesis using False by auto
  next
    case True
    show ?thesis
    proof (cases "best_candidate_scan M g u None (- 1)")
      case None
      then have "f M target g u = Some r" using body True by simp
      from IH [OF this] show ?thesis .
    next
      case (Some c)
      then have c: "c \<in> set u" using best_candidate_scan_mem by fastforce
      have "f M target (g @ [c]) (remove1 c u) = Some r" using body True Some by simp
      from IH [OF this] c mset_move [OF c, of g] show ?thesis
        by (auto simp: length_remove1)
    qed
  qed
  show ?thesis
    by (rule add_most_compatible.raw_induct [where P = ?Q, OF step assms])
qed


lemma make_group_members [simp]: "group_members (make_group M num g) = g"
  by (simp add: make_group_def Let_def)

lemma form_loop_partial:
  assumes "form_loop M rnd target ungrouped groups num c = Some r"
  shows "mset (concat (map group_members (fst r))) + mset (snd r)
           = mset (concat (map group_members groups)) + mset ungrouped
       \<and> (min_group_size \<le> target \<and> (\<forall>g \<in> set groups. min_group_size \<le> length (group_members g))
            \<longrightarrow> (\<forall>g \<in> set (fst r). min_group_size \<le> length (group_members g)))
       \<and> length (snd r) < min_group_size
       \<and> (min_group_size \<le> length ungrouped \<or> groups \<noteq> [] \<longrightarrow> fst r \<noteq> [])"
proof -
  let ?Q = "\<lambda>(M :: rat list list) (rnd :: nat \<Rightarrow> nat) target ungrouped groups (num :: nat) (c :: nat) r.
       mset (concat (map group_members (fst r))) + mset (snd r)
           = mset (concat (map group_members groups)) + mset ungrouped
       \<and> (min_group_size \<le> target \<and> (\<forall>g \<in> set groups. min_group_size \<le> length (group_members g))
            \<longrightarrow> (\<forall>g \<in> set (fst r). min_group_size \<le> length (group_members g)))
       \<and> length (snd r) < min_group_size
       \<and> (min_group_size \<le> length ungrouped \<or> groups \<noteq> [] \<longrightarrow> fst r \<noteq> [])"
  have step: "?Q M rnd target ungrouped groups num c r"
    if IH: "\<And>M rnd target ungrouped groups num c r.
              f M rnd target ungrouped groups num c = Some r
              \<Longrightarrow> ?Q M rnd target ungrouped groups num c r"
    and body: "(if min_group_size \<le> length ungrouped
        then if length ungrouped < target
             then f M rnd target [] (groups @ [make_group M num ungrouped]) (Suc num) c
             else let first_student = ungrouped ! (rnd c mod length ungrouped)
                  in case add_most_compatible M target [first_student]
                            (remove1 first_student ungrouped) of
                       None \<Rightarrow> None
                     | Some (grp, rest) \<Rightarrow>
                         f M rnd target rest (groups @ [make_group M num grp]) (Suc num) (Suc c)
        else Some (groups, ungrouped)) = Some r"
    for f M rnd target ungrouped groups num c r
  proof (cases "min_group_size \<le> length ungrouped")
    case False
    then have "r = (groups, ungrouped)" using body by simp
    then show ?thesis using False by auto
  next
    case big: True
    show ?thesis
    proof (cases "length ungrouped < target")
      case True
      then have "f M rnd target [] (groups @ [make_group M num ungrouped]) (Suc num) c = Some r"
        using body big by simp
      from IH [OF this] big show ?thesis by auto
    next
      case False
      define seed where "seed = ungrouped ! (rnd c mod length ungrouped)"
      have pos: "0 < length ungrouped" using big by (auto simp: min_group_size_def)
      then have seed: "seed \<in> set ungrouped" by (simp add: seed_def)
      obtain grp rest where inner:
        "add_most_compatible M target [seed] (remove1 seed ungrouped) = Some (grp, rest)"
        and rec: "f M rnd target rest (groups @ [make_group M num grp]) (Suc num) (Suc c) = Some r"
        using body big False
        by (auto simp: Let_def seed_def split: option.splits)
      from add_most_compatible_partial [OF inner]
      have m: "mset grp + mset rest = mset [seed] + mset (remove1 seed ungrouped)"
        and stop: "\<not> (length grp < target \<and> rest \<noteq> [])" by simp_all
      have m': "mset grp + mset rest = mset ungrouped" using m seed by simp
      have sz: "min_group_size \<le> target \<longrightarrow> min_group_size \<le> length grp"
      proof (cases "rest = []")
        case True
        then have "mset grp = mset ungrouped" using m' by simp
        then have "length grp = length ungrouped" by (rule mset_eq_length)
        then show ?thesis using big by simp
      next
        case False
        then show ?thesis using stop by simp
      qed
      from IH [OF rec] m' sz show ?thesis by (auto simp: add.assoc)
    qed
  qed
  show ?thesis
    by (rule form_loop.raw_induct [where P = ?Q, OF step assms])
qed


lemma best_candidate_scan_keeps:
  "\<exists>c. best_candidate_scan M g us (Some b) s = Some c"
  by (induction us arbitrary: b s) (auto simp: Let_def)

lemma sum_list_above:
  fixes f :: "'a \<Rightarrow> rat"
  shows "xs \<noteq> [] \<Longrightarrow> \<forall>x \<in> set xs. - 1 < f x
         \<Longrightarrow> - of_nat (length xs) < sum_list (map f xs)"
proof (induction xs)
  case Nil
  then show ?case by simp
next
  case (Cons x xs)
  show ?case
  proof (cases "xs = []")
    case True
    then show ?thesis using Cons.prems by simp
  next
    case False
    from Cons.IH [OF False] Cons.prems show ?thesis by simp
  qed
qed

lemma avg_above:
  fixes f :: "'a \<Rightarrow> rat"
  assumes "xs \<noteq> []" "\<forall>x \<in> set xs. - 1 < f x"
  shows "- 1 < sum_list (map f xs) / of_nat (length xs)"
proof -
  have n: "(0::rat) < of_nat (length xs)" using assms(1) by simp
  have "- 1 * of_nat (length xs) < sum_list (map f xs)"
    using sum_list_above [OF assms] by simp
  then show ?thesis using n by (simp add: pos_less_divide_eq)
qed

lemma best_candidate_scan_finds:
  assumes "us \<noteq> []" "g \<noteq> []" "scores_above M S" "set us \<subseteq> S" "set g \<subseteq> S"
  shows "\<exists>c. best_candidate_scan M g us None (- 1) = Some c"
proof -
  obtain u rest where us: "us = u # rest" using assms(1) by (cases us) auto
  have "\<forall>m \<in> set g. - 1 < M ! u ! m"
    using assms(3,4,5) us by (auto simp: scores_above_def)
  from avg_above [OF assms(2) this]
  show ?thesis using us best_candidate_scan_keeps by (simp add: Let_def)
qed

lemma add_most_compatible_returns:
  "g \<noteq> [] \<Longrightarrow> scores_above M S \<Longrightarrow> set u \<subseteq> S \<Longrightarrow> set g \<subseteq> S
   \<Longrightarrow> \<exists>r. add_most_compatible M target g u = Some r"
proof (induction "length u" arbitrary: g u)
  case 0
  then show ?case by (subst add_most_compatible.simps) simp
next
  case (Suc n)
  show ?case
  proof (cases "length g < target \<and> u \<noteq> []")
    case False
    then show ?thesis by (subst add_most_compatible.simps) auto
  next
    case True
    then have une: "u \<noteq> []" by simp
    from best_candidate_scan_finds [OF une Suc.prems(1,2,3,4)]
    obtain c where c: "best_candidate_scan M g u None (- 1) = Some c" by blast
    then have cu: "c \<in> set u" using best_candidate_scan_mem by fastforce
    have len: "n = length (remove1 c u)" using Suc.hyps(2) cu by (simp add: length_remove1)
    have 1: "g @ [c] \<noteq> []" by simp
    have 2: "set (remove1 c u) \<subseteq> S" using Suc.prems(3) set_remove1_subset by fastforce
    have 3: "set (g @ [c]) \<subseteq> S" using Suc.prems(3,4) cu by auto
    from Suc.hyps(1) [OF len 1 Suc.prems(2) 2 3]
    show ?thesis using True c by (subst add_most_compatible.simps) simp
  qed
qed

lemma form_loop_returns:
  "scores_above M S \<Longrightarrow> set ungrouped \<subseteq> S
   \<Longrightarrow> \<exists>r. form_loop M rnd target ungrouped groups num c = Some r"
proof (induction "length ungrouped" arbitrary: ungrouped groups num c rule: less_induct)
  case less
  show ?case
  proof (cases "min_group_size \<le> length ungrouped")
    case False
    then show ?thesis by (subst form_loop.simps) simp
  next
    case big: True
    show ?thesis
    proof (cases "length ungrouped < target")
      case True
      have "\<exists>r. form_loop M rnd target [] (groups @ [make_group M num ungrouped]) (Suc num) c = Some r"
        by (subst form_loop.simps) (simp add: min_group_size_def)
      then show ?thesis using big True by (subst form_loop.simps) simp
    next
      case False
      define seed where "seed = ungrouped ! (rnd c mod length ungrouped)"
      have pos: "0 < length ungrouped" using big by (auto simp: min_group_size_def)
      then have seed: "seed \<in> set ungrouped" by (simp add: seed_def)
      have 1: "[seed] \<noteq> []" by simp
      have 2: "set (remove1 seed ungrouped) \<subseteq> S"
        using less.prems(2) set_remove1_subset by fastforce
      have 3: "set [seed] \<subseteq> S" using seed less.prems(2) by auto
      from add_most_compatible_returns [OF 1 less.prems(1) 2 3]
      obtain grp rest where inner:
        "add_most_compatible M target [seed] (remove1 seed ungrouped) = Some (grp, rest)"
        by fastforce
      from add_most_compatible_partial [OF inner]
      have m: "mset grp + mset rest = mset [seed] + mset (remove1 seed ungrouped)"
        and le: "length rest \<le> length (remove1 seed ungrouped)" by simp_all
      have "length (remove1 seed ungrouped) < length ungrouped"
        using seed pos by (simp add: length_remove1)
      then have shorter: "length rest < length ungrouped"
        using le by linarith
      have "mset grp + mset rest = mset ungrouped" using m seed by simp
      then have "set_mset (mset rest) \<subseteq> set_mset (mset ungrouped)"
        by (metis mset_subset_eq_add_right set_mset_mono)
      then have sub: "set rest \<subseteq> S" using less.prems(2) by auto
      from less.hyps [OF shorter less.prems(1) sub]
      obtain r where "form_loop M rnd target rest (groups @ [make_group M num grp]) (Suc num) (Suc c) = Some r"
        by blast
      then show ?thesis using big False inner
        by (subst form_loop.simps) (simp add: Let_def seed_def)
    qed
  qed
qed


lemma merge_leftover_mset:
  "k < length gs
   \<Longrightarrow> mset (concat (map group_members
         (gs[k := (gs ! k)\<lparr>group_members := group_members (gs ! k) @ extra\<rparr>])))
       = mset (concat (map group_members gs)) + mset extra"
proof (induction gs arbitrary: k)
  case Nil
  then show ?case by simp
next
  case (Cons g gs)
  show ?case
  proof (cases k)
    case 0
    then show ?thesis by simp
  next
    case (Suc j)
    then have "j < length gs" using Cons.prems by simp
    from Cons.IH [OF this] Suc show ?thesis by simp
  qed
qed

lemma matrix_entry:
  "i < length students \<Longrightarrow> j < length students
   \<Longrightarrow> create_compatibility_matrix students ! i ! j
       = (if i < j then calculate_compatibility (students ! i) (students ! j)
          else if j < i then calculate_compatibility (students ! j) (students ! i)
          else 0)"
  by (simp add: create_compatibility_matrix_def Let_def)

lemma matrix_scores_above:
  assumes "\<forall>s \<in> set students. on_scale (traits s)"
  shows "scores_above (create_compatibility_matrix students) {0..<length students}"
proof -
  have "- 1 < create_compatibility_matrix students ! i ! j"
    if "i < length students" "j < length students" for i j
  proof -
    have si: "on_scale (traits (students ! i))" and sj: "on_scale (traits (students ! j))"
      using assms that by simp_all
    have "0 \<le> calculate_compatibility (students ! i) (students ! j)"
      "0 \<le> calculate_compatibility (students ! j) (students ! i)"
      using compatibility_range [OF si sj] compatibility_range [OF sj si] by simp_all
    then show ?thesis by (simp add: matrix_entry [OF that])
  qed
  then show ?thesis by (simp add: scores_above_def)
qed

lemma add_most_compatible_stuck:
  assumes "length g < target" "u \<noteq> []" "best_candidate_scan M g u None (- 1) = None"
  shows "add_most_compatible M target g u = None"
proof (rule ccontr)
  assume "add_most_compatible M target g u \<noteq> None"
  then obtain r where r: "add_most_compatible M target g u = Some r" by auto
  let ?Q = "\<lambda>(M' :: rat list list) (target' :: nat) (g' :: nat list) (u' :: nat list)
       (r' :: nat list \<times> nat list).
     \<not> (M' = M \<and> target' = target \<and> g' = g \<and> u' = u)"
  have step: "?Q M' target' g' u' r'"
    if IH: "\<And>M target g u r. f M target g u = Some r \<Longrightarrow> ?Q M target g u r"
    and body: "(if length g' < target' \<and> u' \<noteq> []
        then case best_candidate_scan M' g' u' None (- 1) of
               None \<Rightarrow> f M' target' g' u'
             | Some best_candidate \<Rightarrow>
                 f M' target' (g' @ [best_candidate]) (remove1 best_candidate u')
        else Some (g', u')) = Some r'"
    for f M' target' g' u' r'
  proof
    assume e: "M' = M \<and> target' = target \<and> g' = g \<and> u' = u"
    then have "f M target g u = Some r'" using body assms by simp
    from IH [OF this] show False by simp
  qed
  have "?Q M target g u r"
    by (rule add_most_compatible.raw_induct [where P = ?Q, OF step r])
  then show False by simp
qed

text \<open>
  The loop can indeed run forever: with the first of \<open>stuck_students\<close> drawn as seed,
  both candidates score \<open>-19.452\<close> against the group, none is taken, and the inner
  loop repeats unchanged.
\<close>

lemma form_groups_simple_diverges: "form_groups_simple stuck_students (\<lambda>c. 0) 3 = None"
proof -
  have m: "create_compatibility_matrix stuck_students
      = [[0, - (4863 / 250), - (4863 / 250)], [- (4863 / 250), 0, 66 / 125],
         [- (4863 / 250), 66 / 125, 0]]"
    by (simp add: create_compatibility_matrix_def stuck_students_def compat_defs
        student_off_scale_def Let_def upt_rec)
  have "add_most_compatible (create_compatibility_matrix stuck_students) 3 [0] [1, 2] = None"
    by (rule add_most_compatible_stuck) (simp_all add: m Let_def)
  then have "form_loop (create_compatibility_matrix stuck_students) (\<lambda>c. 0) 3 [0, 1, 2] [] 1 0 = None"
    by (subst form_loop.simps) (simp add: min_group_size_def Let_def)
  then have loop: "form_loop (create_compatibility_matrix stuck_students) (\<lambda>c. 0) 3
      [0..<length stuck_students] [] 1 0 = None"
    by (simp add: stuck_students_def upt_rec numeral_2_eq_2)
  show ?thesis unfolding form_groups_simple_def Let_def loop by simp
qed

text \<open>A run on seven students with target size 3: the leftover student joins group 1.\<close>

lemma form_groups_simple_example:
  "form_groups_simple seven_students (\<lambda>c. 2) 3 = Some
     (Inr [\<lparr>group_num = 1, group_members = [2, 0, 1, 3], compatibility_score = 23 / 40\<rparr>,
           \<lparr>group_num = 2, group_members = [5, 6, 4], compatibility_score = 621 / 1000\<rparr>])"
  by code_simp

text \<open>
  C2, as stated, fails: the claim asks only for three students and a target size of three,
  and promises the groups that are returned. For \<open>stuck_students\<close>, whose first student
  has a conscientiousness value far off the scale, both hypotheses hold and no groups are
  returned: the call does not terminate.
\<close>

theorem form_groups_simple_no_result:
  "min_group_size \<le> length stuck_students \<and> min_group_size \<le> (3 :: nat)
   \<and> list_all (\<lambda>s. on_scale (traits s)) stuck_students = False
   \<and> form_groups_simple stuck_students (\<lambda>c. 0) 3 = None"
proof -
  have "on_scale (traits (student_off_scale 1000)) = False"
    by (simp add: on_scale_def student_off_scale_def bare_student_def)
  then have "list_all (\<lambda>s. on_scale (traits s)) stuck_students = False"
    by (simp add: stuck_students_def)
  moreover have "min_group_size \<le> length stuck_students \<and> min_group_size \<le> (3 :: nat)"
    by (simp add: min_group_size_def stuck_students_def)
  ultimately show ?thesis using form_groups_simple_diverges by simp
qed

text \<open>
  C2, amended. For a population of at least \<open>min_group_size\<close> students and a target size
  of at least \<open>min_group_size\<close>, whatever the random draws: when the trait values on record
  lie on the 1 to 5 scale, \<open>form_groups_simple\<close> returns groups that all have at least
  \<open>min_group_size\<close> members and together hold every student position exactly once. Without
  that condition the call may not return, but any groups it does return still form such a
  partition, and it raises no exception.
\<close>

theorem form_groups_simple_partition:
  assumes "min_group_size \<le> length students" "min_group_size \<le> target"
  shows "((\<forall>s \<in> set students. on_scale (traits s)) \<longrightarrow>
            (\<exists>groups. form_groups_simple students rnd target = Some (Inr groups)
               \<and> (\<forall>g \<in> set groups. min_group_size \<le> length (group_members g))
               \<and> mset (concat (map group_members groups)) = mset [0..<length students]))
       \<and> (\<forall>groups. form_groups_simple students rnd target = Some (Inr groups) \<longrightarrow>
            (\<forall>g \<in> set groups. min_group_size \<le> length (group_members g))
            \<and> mset (concat (map group_members groups)) = mset [0..<length students])
       \<and> (\<forall>e. form_groups_simple students rnd target \<noteq> Some (Inl e))"
proof -
  let ?M = "create_compatibility_matrix students"
  let ?n = "length students"
  show ?thesis
  proof (cases "form_loop ?M rnd target [0..<?n] [] 1 0")
    case None
    have "\<not> (\<forall>s \<in> set students. on_scale (traits s))"
    proof
      assume "\<forall>s \<in> set students. on_scale (traits s)"
      then have "scores_above ?M {0..<?n}" by (rule matrix_scores_above)
      from form_loop_returns [OF this, of "[0..<?n]" rnd target "[]" 1 0] None
      show False by simp
    qed
    then show ?thesis using None by (simp add: form_groups_simple_def Let_def)
  next
    case (Some r)
    obtain gs rest where r: "r = (gs, rest)" by (cases r) auto
    from form_loop_partial [OF Some] r assms
    have m: "mset (concat (map group_members gs)) + mset rest = mset [0..<?n]"
      and sz: "\<forall>g \<in> set gs. min_group_size \<le> length (group_members g)"
      and ne: "gs \<noteq> []" by simp_all
    show ?thesis
    proof (cases "rest = []")
      case True
      then have "form_groups_simple students rnd target = Some (Inr gs)"
        using Some r by (simp add: form_groups_simple_def Let_def)
      then show ?thesis using m sz True by simp
    next
      case False
      define k where "k = smallest_index (map group_members gs)"
      define merged where
        "merged = gs[k := (gs ! k)\<lparr>group_members := group_members (gs ! k) @ rest\<rparr>]"
      have k: "k < length gs"
        using smallest_index_less [of "map group_members gs"] ne by (simp add: k_def)
      have res: "form_groups_simple students rnd target = Some (Inr merged)"
        using Some r False ne by (simp add: form_groups_simple_def Let_def k_def merged_def)
      have "mset (concat (map group_members merged)) = mset [0..<?n]"
        using merge_leftover_mset [OF k, of rest] m by (simp add: merged_def)
      moreover have "\<forall>g \<in> set merged. min_group_size \<le> length (group_members g)"
      proof
        fix g assume "g \<in> set merged"
        then have "g \<in> insert ((gs ! k)\<lparr>group_members := group_members (gs ! k) @ rest\<rparr>) (set gs)"
          unfolding merged_def using set_update_subset_insert by fastforce
        moreover have "min_group_size \<le> length (group_members (gs ! k))" using sz k by simp
        ultimately show "min_group_size \<le> length (group_members g)" using sz by auto
      qed
      ultimately show ?thesis using res by simp
    qed
  qed
qed

theorem form_groups_simple_partition_witness:
  "min_group_size \<le> length seven_students \<and> min_group_size \<le> 3
   \<and> list_all (\<lambda>s. on_scale (traits s)) seven_students
   \<and> form_groups_simple seven_students (\<lambda>c. 2) 3 = Some
         (Inr [\<lparr>group_num = 1, group_members = [2, 0, 1, 3], compatibility_score = 23 / 40\<rparr>,
               \<lparr>group_num = 2, group_members = [5, 6, 4], compatibility_score = 621 / 1000\<rparr>])
   \<and> list_all (\<lambda>g. min_group_size \<le> length (group_members g))
         [\<lparr>group_num = 1, group_members = [2, 0, 1, 3], compatibility_score = 23 / 40\<rparr>,
          \<lparr>group_num = 2, group_members = [5, 6, 4], compatibility_score = 621 / 1000\<rparr>]
   \<and> mset (concat (map group_members
         [\<lparr>group_num = 1, group_members = [2, 0, 1, 3], compatibility_score = 23 / 40\<rparr>,
          \<lparr>group_num = 2, group_members = [5, 6, 4], compatibility_score = 621 / 1000\<rparr>]))
       = mset [0..<length seven_students]"
proof -
  have a: "min_group_size \<le> length seven_students" "min_group_size \<le> 3"
    by (simp_all add: min_group_size_def seven_students_def)
  have b: "list_all (\<lambda>s. on_scale (traits s)) seven_students"
    by (simp add: seven_students_def on_scale_def student_ana_def student_ben_def
        bare_student_def)
  from form_groups_simple_partition [OF a, of "\<lambda>c. 2"] form_groups_simple_example a b
  show ?thesis by (simp add: list_all_iff)
qed

text \<open>
  C7. With fewer than \<open>min_group_size\<close> students \<open>form_groups_simple\<close> returns no
  grouping: for one or two students it raises \<open>ValueError\<close> (the leftover students find
  no group to join), for none it returns the empty list; and \<open>run\<close> reports the failure
  to its caller by returning \<open>False\<close>.
\<close>

theorem form_groups_simple_too_few:
  assumes "length students < min_group_size"
  shows "form_groups_simple students rnd target
           = Some (if students = [] then Inr [] else Inl ValueError)
       \<and> run db_connected students rnd target = Some False"
proof -
  have "form_loop (create_compatibility_matrix students) rnd target [0..<length students] [] 1 0
        = Some ([], [0..<length students])"
    using assms by (subst form_loop.simps) simp
  then have f: "form_groups_simple students rnd target
           = Some (if students = [] then Inr [] else Inl ValueError)"
    by (simp add: form_groups_simple_def Let_def)
  then show ?thesis by (simp add: run_def)
qed

theorem form_groups_simple_too_few_witness:
  "length [student_ana, student_ben] < min_group_size
   \<and> form_groups_simple [student_ana, student_ben] (\<lambda>c. 0) 4 = Some (Inl ValueError)
   \<and> run True [student_ana, student_ben] (\<lambda>c. 0) 4 = Some False"
proof -
  have a: "length [student_ana, student_ben] < min_group_size"
    by (simp add: min_group_size_def)
  from form_groups_simple_too_few [OF a, of "\<lambda>c. 0" 4 True] a show ?thesis by simp
qed


section \<open>Properties of the evolutionary search\<close>

subsection \<open>The best genome of the final population\<close>

lemma fitness_le_refl: "fitness_le f f"
  by (cases f) simp_all

lemma fitness_le_trans: "fitness_le a b \<Longrightarrow> fitness_le b c \<Longrightarrow> fitness_le a c"
  by (cases a; cases b; cases c) simp_all

lemma fitness_le_total: "fitness_le a b \<or> fitness_le b a"
  by (cases a; cases b) auto

lemma best_of_mem: "best_of x xs \<in> set (x # xs)"
  by (induction xs arbitrary: x) (auto simp: Let_def)

lemma best_of_max: "y \<in> set (x # xs) \<Longrightarrow> fitness_le (fitness y) (fitness (best_of x xs))"
proof (induction xs arbitrary: x y)
  case Nil
  then show ?case by (simp add: fitness_le_refl)
next
  case (Cons z zs)
  let ?m = "best_of z zs"
  show ?case
  proof (cases "fitness_le (fitness ?m) (fitness x)")
    case True
    then have r: "best_of x (z # zs) = x" by (simp add: Let_def)
    show ?thesis
    proof (cases "y = x")
      case True
      then show ?thesis using r by (simp add: fitness_le_refl)
    next
      case False
      then have "y \<in> set (z # zs)" using Cons.prems by simp
      from Cons.IH [OF this] True show ?thesis
        unfolding r by (rule fitness_le_trans)
    qed
  next
    case False
    then have r: "best_of x (z # zs) = ?m" by (simp add: Let_def)
    have xm: "fitness_le (fitness x) (fitness ?m)" using False fitness_le_total by blast
    show ?thesis
    proof (cases "y = x")
      case True
      then show ?thesis using r xm by simp
    next
      case False
      then have "y \<in> set (z # zs)" using Cons.prems by simp
      from Cons.IH [OF this] show ?thesis unfolding r .
    qed
  qed
qed

lemma random_random_unit: "0 \<le> random_random u c \<and> random_random u c < 1"
  unfolding random_random_def by linarith

lemma random_below_less: "0 < n \<Longrightarrow> random_below u c n < n"
proof -
  assume n: "0 < n"
  let ?r = "random_random u c"
  have "0 \<le> ?r * of_nat n" using random_random_unit [of u c] by simp
  moreover have "?r * of_nat n < of_nat n"
    using random_random_unit [of u c] n by simp
  ultimately have "0 \<le> \<lfloor>?r * of_nat n\<rfloor>" "\<lfloor>?r * of_nat n\<rfloor> < int n"
    by (simp_all add: floor_less_iff)
  then show ?thesis unfolding random_below_def by linarith
qed

lemma random_choice_mem: "random_choice u seq c = Inr (x, c') \<Longrightarrow> x \<in> set seq"
  by (auto simp: random_choice_def random_below_less split: if_splits)

lemma sel_random_subset:
  "sel_random u inds k c = Inr (xs, c') \<Longrightarrow> set xs \<subseteq> set inds \<and> length xs = k"
proof (induction k arbitrary: c xs)
  case 0
  then show ?case by simp
next
  case (Suc k)
  from Suc.prems obtain x c1 ys where
    a: "random_choice u inds c = Inr (x, c1)" and b: "sel_random u inds k c1 = Inr (ys, c')"
    and c: "xs = x # ys"
    by (auto split: sum.splits)
  from Suc.IH [OF b] random_choice_mem [OF a] c show ?case by simp
qed

lemma sel_tournament_subset:
  "sel_tournament u inds k c = Inr (xs, c') \<Longrightarrow> set xs \<subseteq> set inds"
proof (induction k arbitrary: c xs)
  case 0
  then show ?case by simp
next
  case (Suc k)
  from Suc.prems obtain asp c1 ys where
    a: "sel_random u inds 3 c = Inr (asp, c1)" and b: "sel_tournament u inds k c1 = Inr (ys, c')"
    and c: "xs = best_of (hd asp) (tl asp) # ys"
    by (auto split: sum.splits)
  from sel_random_subset [OF a] have s: "set asp \<subseteq> set inds" and l: "length asp = 3" by simp_all
  then have ne: "asp \<noteq> []" by auto
  have "best_of (hd asp) (tl asp) \<in> set (hd asp # tl asp)" by (rule best_of_mem)
  then have "best_of (hd asp) (tl asp) \<in> set inds" using s ne by auto
  then show ?case using Suc.IH [OF b] c by simp
qed

lemma mate_pairs_fresh:
  "mate_pairs u pop c = Inr (pop', c')
   \<Longrightarrow> \<forall>ind \<in> set pop. fitness ind = None \<or> fitness ind = Some (E (genes ind))
   \<Longrightarrow> \<forall>ind \<in> set pop'. fitness ind = None \<or> fitness ind = Some (E (genes ind))"
proof (induction u pop c arbitrary: pop' c' rule: mate_pairs.induct)
  case (1 u child1 child2 rest c)
  show ?case
  proof (cases "random_random u c < crossover_prob")
    case True
    from "1.prems"(1) True obtain g1 g2 c1 rest' where
      a: "cx_two_point u (genes child1) (genes child2) (Suc c) = Inr ((g1, g2), c1)"
      and b: "mate_pairs u rest c1 = Inr (rest', c')"
      and c: "pop' = \<lparr>genes = g1, fitness = None\<rparr> # \<lparr>genes = g2, fitness = None\<rparr> # rest'"
      by (auto split: sum.splits)
    have "\<forall>ind \<in> set rest. fitness ind = None \<or> fitness ind = Some (E (genes ind))"
      using "1.prems"(2) by simp
    from "1.IH"(1) [OF True a refl refl b this] c show ?thesis by simp
  next
    case False
    from "1.prems"(1) False obtain rest' where
      b: "mate_pairs u rest (Suc c) = Inr (rest', c')"
      and c: "pop' = child1 # child2 # rest'"
      by (auto split: sum.splits)
    have "\<forall>ind \<in> set rest. fitness ind = None \<or> fitness ind = Some (E (genes ind))"
      using "1.prems"(2) by simp
    from "1.IH"(2) [OF False b this] c "1.prems"(2) show ?thesis by simp
  qed
qed simp_all

lemma mutate_all_fresh:
  "mutate_all u pop c = (pop', c')
   \<Longrightarrow> \<forall>ind \<in> set pop. fitness ind = None \<or> fitness ind = Some (E (genes ind))
   \<Longrightarrow> \<forall>ind \<in> set pop'. fitness ind = None \<or> fitness ind = Some (E (genes ind))"
proof (induction pop arbitrary: c pop' c')
  case Nil
  then show ?case by simp
next
  case (Cons m rest)
  have r: "\<forall>ind \<in> set rest. fitness ind = None \<or> fitness ind = Some (E (genes ind))"
    using Cons.prems(2) by simp
  show ?case
  proof (cases "random_random u c < mutation_prob")
    case True
    from Cons.prems(1) True obtain gs c1 rest' where
      b: "mutate_all u rest c1 = (rest', c')"
      and c: "pop' = \<lparr>genes = gs, fitness = None\<rparr> # rest'"
      by (auto split: prod.splits)
    from Cons.IH [OF b r] c show ?thesis by simp
  next
    case False
    from Cons.prems(1) False obtain rest' where
      b: "mutate_all u rest (Suc c) = (rest', c')" and c: "pop' = m # rest'"
      by (auto split: prod.splits)
    from Cons.IH [OF b r] c Cons.prems(2) show ?thesis by simp
  qed
qed

lemma generation_valid:
  assumes "generation M t u pop c = Inr (pop', c')"
  shows "\<forall>ind \<in> set pop'. fitness ind = Some (evaluate_grouping M t (genes ind))"
proof -
  let ?E = "evaluate_grouping M t"
  let ?pop = "evaluate_all M t pop"
  from assms obtain o1 c1 o2 c2 o3 where
    a: "sel_tournament u ?pop (length ?pop) c = Inr (o1, c1)"
    and b: "mate_pairs u o1 c1 = Inr (o2, c2)"
    and m: "mutate_all u o2 c2 = (o3, c')"
    and r: "pop' = evaluate_invalid M t o3"
    by (auto simp: generation_def Let_def split: sum.splits prod.splits)
  have v: "\<forall>ind \<in> set ?pop. fitness ind = Some (?E (genes ind))"
    by (auto simp: evaluate_all_def)
  have "\<forall>ind \<in> set o1. fitness ind = None \<or> fitness ind = Some (?E (genes ind))"
    using sel_tournament_subset [OF a] v by auto
  from mate_pairs_fresh [OF b this]
  have "\<forall>ind \<in> set o2. fitness ind = None \<or> fitness ind = Some (?E (genes ind))" .
  from mutate_all_fresh [OF m this]
  have "\<forall>ind \<in> set o3. fitness ind = None \<or> fitness ind = Some (?E (genes ind))" .
  then show ?thesis unfolding r by (auto simp: evaluate_invalid_def)
qed

lemma evolve_valid:
  "evolve M t u (Suc g) pop c = Inr (pop', c')
   \<Longrightarrow> \<forall>ind \<in> set pop'. fitness ind = Some (evaluate_grouping M t (genes ind))"
proof (induction g arbitrary: pop c)
  case 0
  then have "generation M t u pop c = Inr (pop', c')"
    by (auto split: sum.splits)
  then show ?case by (rule generation_valid)
next
  case (Suc g)
  from Suc.prems obtain p1 c1 where
    "generation M t u pop c = Inr (p1, c1)" and e: "evolve M t u (Suc g) p1 c1 = Inr (pop', c')"
    by (auto split: sum.splits)
  from Suc.IH [OF e] show ?case .
qed

subsection \<open>A run that loses its best initial genome\<close>

lemma flat_matrix_eq: "ga_create_compatibility_matrix six_students = flat_matrix"
  by (simp add: ga_create_compatibility_matrix_def six_students_def flat_matrix_def
      ga_calculate_compatibility_def truthy_gwa_def bare_student_def round3_def
      round_half_even_def Let_def upt_rec)

lemma eval_bad: "evaluate_grouping flat_matrix 4 bad_genes = - (199/2)"
  by (simp add: evaluate_grouping_def decode_individual_def bad_genes_def flat_matrix_def
      min_group_size_def max_group_size_def Let_def)

lemma eval_good: "evaluate_grouping flat_matrix 4 good_genes = 1"
  by (simp add: evaluate_grouping_def decode_individual_def good_genes_def flat_matrix_def
      min_group_size_def max_group_size_def Let_def)

lemma floor_two_fifths: "\<lfloor>2 / 5 :: rat\<rfloor> = 0"
  by (simp add: floor_eq_iff)

lemma floor_nine_tenths: "\<lfloor>9 / 10 :: rat\<rfloor> = 0"
  by (simp add: floor_eq_iff)

lemma floor_twelve_fifths: "\<lfloor>12 / 5 :: rat\<rfloor> = 2"
  by (simp add: floor_eq_iff)

lemma replicate_three: "replicate 3 x = [x, x, x]"
  by (simp add: numeral_3_eq_3)

lemma draw_late: "6 \<le> c \<Longrightarrow> random_random stream_one_good c = 2/5"
  by (simp add: random_random_def stream_one_good_def floor_two_fifths)

lemma draw_early: "c < 6 \<Longrightarrow> random_random stream_one_good c = 9/10"
  by (simp add: random_random_def stream_one_good_def floor_nine_tenths)

lemma init_individual_late:
  "6 \<le> c \<Longrightarrow> init_individual stream_one_good n c = replicate n (2/5)"
  by (induction n arbitrary: c) (simp_all add: draw_late)

lemma init_individual_first: "init_individual stream_one_good 6 0 = good_genes"
  by (simp add: numeral_eq_Suc draw_early good_genes_def)

lemma bad_replicate: "replicate 6 (2/5) = bad_genes"
  by (simp add: numeral_eq_Suc bad_genes_def)

lemma init_population_late:
  "6 \<le> c \<Longrightarrow> init_population stream_one_good 6 k c
     = (replicate k \<lparr>genes = bad_genes, fitness = None\<rparr>, c + k * 6)"
  by (induction k arbitrary: c) (simp_all add: init_individual_late bad_replicate)

lemma init_population_one_good:
  "init_population stream_one_good 6 (Suc k) 0
     = (\<lparr>genes = good_genes, fitness = None\<rparr> # replicate k \<lparr>genes = bad_genes, fitness = None\<rparr>,
        6 + k * 6)"
  by (simp add: init_population_late init_individual_first)

lemma choice_late:
  "6 \<le> c \<Longrightarrow> length pop = 50 \<Longrightarrow> random_choice stream_one_good pop c = Inr (pop ! 20, Suc c)"
  by (auto simp: random_choice_def random_below_def draw_late)

lemma sel_random_late:
  "6 \<le> c \<Longrightarrow> length pop = 50
   \<Longrightarrow> sel_random stream_one_good pop k c = Inr (replicate k (pop ! 20), c + k)"
  by (induction k arbitrary: c) (simp_all add: choice_late)

lemma sel_tournament_late:
  "6 \<le> c \<Longrightarrow> length pop = 50
   \<Longrightarrow> sel_tournament stream_one_good pop k c = Inr (replicate k (pop ! 20), c + 3 * k)"
  by (induction k arbitrary: c)
    (simp_all add: sel_random_late replicate_three fitness_le_refl Let_def)

lemma cx_bad:
  "6 \<le> c \<Longrightarrow> cx_two_point stream_one_good bad_genes bad_genes c
     = Inr ((bad_genes, bad_genes), c + 2)"
  by (simp add: cx_two_point_def random_randint_def random_below_def draw_late bad_genes_def
      floor_twelve_fifths Let_def)

lemma mate_pairs_bad:
  "6 \<le> c \<Longrightarrow> mate_pairs stream_one_good (replicate (2 * j) \<lparr>genes = bad_genes, fitness = f\<rparr>) c
     = Inr (replicate (2 * j) \<lparr>genes = bad_genes, fitness = None\<rparr>, c + 3 * j)"
  by (induction j arbitrary: c) (simp_all add: draw_late crossover_prob_def cx_bad)

lemma mutate_all_late:
  "6 \<le> c \<Longrightarrow> mutate_all stream_one_good pop c = (pop, c + length pop)"
  by (induction pop arbitrary: c) (simp_all add: draw_late mutation_prob_def)

lemma evaluate_invalid_bad:
  "evaluate_invalid flat_matrix 4 (replicate k \<lparr>genes = bad_genes, fitness = None\<rparr>)
     = replicate k \<lparr>genes = bad_genes, fitness = Some (- (199/2))\<rparr>"
  by (simp add: evaluate_invalid_def eval_bad)

lemma generation_bad:
  assumes "6 \<le> c" "length pop = 50" "genes (pop ! 20) = bad_genes"
  shows "generation flat_matrix 4 stream_one_good pop c
     = Inr (replicate 50 \<lparr>genes = bad_genes, fitness = Some (- (199/2))\<rparr>, c + 275)"
proof -
  let ?pop = "evaluate_all flat_matrix 4 pop"
  have len: "length ?pop = 50" using assms(2) by (simp add: evaluate_all_def)
  have at: "?pop ! 20 = \<lparr>genes = bad_genes, fitness = Some (- (199/2))\<rparr>"
    using assms(2,3) by (simp add: evaluate_all_def eval_bad)
  have sel: "sel_tournament stream_one_good ?pop (length ?pop) c
      = Inr (replicate 50 \<lparr>genes = bad_genes, fitness = Some (- (199/2))\<rparr>, c + 150)"
    using sel_tournament_late [OF assms(1) len, of 50] by (simp add: len at)
  have mate: "mate_pairs stream_one_good
        (replicate 50 \<lparr>genes = bad_genes, fitness = Some (- (199/2))\<rparr>) (c + 150)
      = Inr (replicate 50 \<lparr>genes = bad_genes, fitness = None\<rparr>, c + 225)"
    using mate_pairs_bad [of "c + 150" 25 "Some (- (199/2))"] assms(1) by simp
  have mut: "mutate_all stream_one_good (replicate 50 \<lparr>genes = bad_genes, fitness = None\<rparr>) (c + 225)
      = (replicate 50 \<lparr>genes = bad_genes, fitness = None\<rparr>, c + 275)"
    using mutate_all_late [of "c + 225"] assms(1) by simp
  show ?thesis
    unfolding generation_def Let_def by (simp add: sel mate mut evaluate_invalid_bad)
qed

lemma evolve_bad:
  assumes "6 \<le> c" "length pop = 50" "genes (pop ! 20) = bad_genes"
  shows "evolve flat_matrix 4 stream_one_good (Suc g) pop c
     = Inr (replicate 50 \<lparr>genes = bad_genes, fitness = Some (- (199/2))\<rparr>, c + 275 * Suc g)"
  using assms
proof (induction g arbitrary: pop c)
  case 0
  then show ?case by (simp add: generation_bad)
next
  case (Suc g)
  have 1: "6 \<le> c + 275" using Suc.prems(1) by simp
  have 2: "length (replicate 50 \<lparr>genes = bad_genes, fitness = Some (- (199/2))\<rparr>) = 50" by simp
  have 3: "genes (replicate 50 \<lparr>genes = bad_genes, fitness = Some (- (199/2))\<rparr> ! 20) = bad_genes"
    by simp
  have "evolve flat_matrix 4 stream_one_good (Suc (Suc g)) pop c
      = evolve flat_matrix 4 stream_one_good (Suc g)
          (replicate 50 \<lparr>genes = bad_genes, fitness = Some (- (199/2))\<rparr>) (c + 275)"
    using generation_bad [OF Suc.prems] by simp
  then show ?case using Suc.IH [OF 1 2 3] by simp
qed


lemma best_of_same: "best_of x (replicate k x) = x"
  by (induction k) (simp_all add: fitness_le_refl Let_def)

lemma ga_run_one_good:
  "form_groups_ga flat_matrix 6 stream_one_good 4
   = Inr \<lparr>initial_population =
            \<lparr>genes = good_genes, fitness = None\<rparr>
            # replicate 49 \<lparr>genes = bad_genes, fitness = None\<rparr>,
          final_population = replicate 50 \<lparr>genes = bad_genes, fitness = Some (- (199/2))\<rparr>,
          best_individual = \<lparr>genes = bad_genes, fitness = Some (- (199/2))\<rparr>,
          best_fitness = - (199/2),
          ga_groups = [\<lparr>group_num = 1, group_members = [0, 1, 2, 3, 4, 5],
                        compatibility_score = 1/2\<rparr>]\<rparr>"
proof -
  let ?init = "\<lparr>genes = good_genes, fitness = None\<rparr>
            # replicate 49 \<lparr>genes = bad_genes, fitness = None\<rparr>"
  have i: "init_population stream_one_good 6 population_size 0 = (?init, 300)"
    using init_population_one_good [of 49] by (simp add: population_size_def)
  have e: "evolve flat_matrix 4 stream_one_good generations ?init 300
      = Inr (replicate 50 \<lparr>genes = bad_genes, fitness = Some (- (199/2))\<rparr>, 300 + 275 * 100)"
    using evolve_bad [of 300 ?init 99] by (simp add: generations_def)
  have r: "replicate 50 \<lparr>genes = bad_genes, fitness = Some (- (199/2))\<rparr>
      = \<lparr>genes = bad_genes, fitness = Some (- (199/2))\<rparr>
        # replicate 49 \<lparr>genes = bad_genes, fitness = Some (- (199/2))\<rparr>"
    by (simp add: numeral_eq_Suc)
  have d: "number_groups flat_matrix (Suc 0) (decode_individual bad_genes)
      = [\<lparr>group_num = 1, group_members = [0, 1, 2, 3, 4, 5], compatibility_score = 1/2\<rparr>]"
    by (simp add: decode_individual_def bad_genes_def flat_matrix_def make_group_def
        min_group_size_def max_group_size_def round3_def round_half_even_def Let_def)
  have "form_groups_ga flat_matrix 6 stream_one_good 4
      = (case replicate 50 \<lparr>genes = bad_genes, fitness = Some (- (199/2))\<rparr> of
           [] \<Rightarrow> Inl IndexError
         | x # xs \<Rightarrow>
             let best = best_of x xs
             in case fitness best of
                  None \<Rightarrow> Inl IndexError
                | Some f \<Rightarrow>
                    Inr \<lparr>initial_population = ?init,
                         final_population =
                           replicate 50 \<lparr>genes = bad_genes, fitness = Some (- (199/2))\<rparr>,
                         best_individual = best,
                         best_fitness = f,
                         ga_groups = number_groups flat_matrix 1
                                       (decode_individual (genes best))\<rparr>)"
    by (simp only: form_groups_ga_def i prod.case e sum.case)
  also have "\<dots> = Inr \<lparr>initial_population = ?init,
          final_population = replicate 50 \<lparr>genes = bad_genes, fitness = Some (- (199/2))\<rparr>,
          best_individual = \<lparr>genes = bad_genes, fitness = Some (- (199/2))\<rparr>,
          best_fitness = - (199/2),
          ga_groups = [\<lparr>group_num = 1, group_members = [0, 1, 2, 3, 4, 5],
                        compatibility_score = 1/2\<rparr>]\<rparr>"
    by (simp add: r best_of_same d Let_def)
  finally show ?thesis .
qed

text \<open>
  C5, as stated, fails: \<open>form_groups_ga\<close> replaces the whole population by the offspring of
  each generation and keeps no record of the best genome seen. Six students whose pairwise
  compatibility is \<open>0.5\<close> throughout are grouped with the default population of 50 and 100
  generations and a target size of 4. Under the random stream \<open>stream_one_good\<close> the initial
  population holds one genome of fitness \<open>1\<close> (two groups of three) and 49 genomes of fitness
  \<open>-99.5\<close> (one group of six); every tournament draws the same losing genome, so the final
  population, and the best genome selected from it, have fitness \<open>-99.5\<close>, below the fitness
  \<open>1\<close> of a genome of the initial population.
\<close>

theorem ga_best_below_initial:
  "ga_create_compatibility_matrix six_students = flat_matrix
   \<and> form_groups_ga flat_matrix 6 stream_one_good 4
     = Inr \<lparr>initial_population =
            \<lparr>genes = good_genes, fitness = None\<rparr>
            # replicate 49 \<lparr>genes = bad_genes, fitness = None\<rparr>,
          final_population = replicate 50 \<lparr>genes = bad_genes, fitness = Some (- (199/2))\<rparr>,
          best_individual = \<lparr>genes = bad_genes, fitness = Some (- (199/2))\<rparr>,
          best_fitness = - (199/2),
          ga_groups = [\<lparr>group_num = 1, group_members = [0, 1, 2, 3, 4, 5],
                        compatibility_score = 1/2\<rparr>]\<rparr>
   \<and> evaluate_grouping flat_matrix 4 good_genes = 1
   \<and> evaluate_grouping flat_matrix 4 bad_genes = - (199/2)"
  using flat_matrix_eq ga_run_one_good eval_good eval_bad by simp

text \<open>
  C5, amended. For every run of \<open>form_groups_ga\<close> that returns (every realization of the
  random stream driving initialization, selection, crossover and mutation), the best genome
  is a member of the final population, every genome of the final population carries the
  fitness of its own genes, and the fitness of the best genome is greater than or equal to
  the fitness of every genome of the final population.
\<close>

theorem ga_best_of_final_population:
  assumes "form_groups_ga compat_matrix n u target_group_size = Inr r"
  shows "best_individual r \<in> set (final_population r)
       \<and> best_fitness r
           = evaluate_grouping compat_matrix target_group_size (genes (best_individual r))
       \<and> (\<forall>ind \<in> set (final_population r).
             fitness ind = Some (evaluate_grouping compat_matrix target_group_size (genes ind))
             \<and> evaluate_grouping compat_matrix target_group_size (genes ind) \<le> best_fitness r)"
proof -
  let ?E = "evaluate_grouping compat_matrix target_group_size"
  obtain p0 c0 where i: "init_population u n population_size 0 = (p0, c0)"
    by (cases "init_population u n population_size 0") auto
  from assms i obtain x xs c' f where
    e: "evolve compat_matrix target_group_size u generations p0 c0 = Inr (x # xs, c')"
    and bf: "fitness (best_of x xs) = Some f"
    and fin: "final_population r = x # xs"
    and best: "best_individual r = best_of x xs"
    and bfit: "best_fitness r = f"
    by (auto simp: form_groups_ga_def Let_def split: sum.splits list.splits option.splits)
  have "generations = Suc 99" by (simp add: generations_def)
  with e have "evolve compat_matrix target_group_size u (Suc 99) p0 c0 = Inr (x # xs, c')"
    by simp
  from evolve_valid [OF this]
  have v: "\<forall>ind \<in> set (x # xs). fitness ind = Some (?E (genes ind))" .
  have mem: "best_of x xs \<in> set (x # xs)" by (rule best_of_mem)
  then have fE: "f = ?E (genes (best_of x xs))" using v bf by auto
  have "?E (genes ind) \<le> f" if "ind \<in> set (x # xs)" for ind
  proof -
    from best_of_max [OF that] have "fitness_le (fitness ind) (fitness (best_of x xs))" .
    moreover have "fitness ind = Some (?E (genes ind))" using v that by blast
    ultimately show ?thesis using bf by simp
  qed
  then show ?thesis using v mem fE by (simp add: fin best bfit)
qed

theorem ga_best_of_final_population_witness:
  "form_groups_ga flat_matrix 6 stream_one_good 4
     = Inr \<lparr>initial_population =
            \<lparr>genes = good_genes, fitness = None\<rparr>
            # replicate 49 \<lparr>genes = bad_genes, fitness = None\<rparr>,
          final_population = replicate 50 \<lparr>genes = bad_genes, fitness = Some (- (199/2))\<rparr>,
          best_individual = \<lparr>genes = bad_genes, fitness = Some (- (199/2))\<rparr>,
          best_fitness = - (199/2),
          ga_groups = [\<lparr>group_num = 1, group_members = [0, 1, 2, 3, 4, 5],
                        compatibility_score = 1/2\<rparr>]\<rparr>
   \<and> \<lparr>genes = bad_genes, fitness = Some (- (199/2))\<rparr>
       \<in> set (replicate 50 \<lparr>genes = bad_genes, fitness = Some (- (199/2))\<rparr>)
   \<and> - (199/2) = evaluate_grouping flat_matrix 4 bad_genes
   \<and> list_all (\<lambda>ind. fitness ind = Some (evaluate_grouping flat_matrix 4 (genes ind))
                      \<and> evaluate_grouping flat_matrix 4 (genes ind) \<le> - (199/2))
        (replicate 50 \<lparr>genes = bad_genes, fitness = Some (- (199/2))\<rparr>)"
  using ga_best_of_final_population [OF ga_run_one_good] ga_run_one_good
  by (simp add: list_all_iff)

end
